theory Spec2Isabelle
  imports Main "HOL-Library.AList"
begin

section \<open>JavaScript values\<close>

text \<open>
  The argument-repair module (\<^verbatim>\<open>src/prompt/repair.js\<close>) works on JSON-like JavaScript
  values. Strings are lists of code units; this development covers the code units
  0..255 (type \<^typ>\<open>char\<close>). Objects are association lists in property order: a property
  write updates the entry in place when the key exists and appends it otherwise
  (\<^const>\<open>AList.update\<close>), \<^verbatim>\<open>delete\<close> removes it (\<^const>\<open>AList.delete\<close>), and a read is
  \<^const>\<open>map_of\<close>.

  Numbers are IEEE doubles. A finite double of magnitude at most \<open>2^53\<close> is
  \<open>Dyadic n k\<close>, its exact value \<open>n / 2^k\<close>. A finite double of larger magnitude is an
  integer; \<open>Large neg m s z\<close> gives its sign, its exact magnitude \<open>m\<close>, and the
  shortest decimal \<open>s * 10^z\<close> that reads back as the same double (\<open>s\<close> without
  trailing zero), which is what \<^verbatim>\<open>Number::toString\<close> prints.
\<close>

datatype jsnum = NaN | PosInfinity | NegInfinity | Dyadic int nat | Large bool nat nat nat

datatype jsval =
    JUndefined
  | JNull
  | JBool bool
  | JNum jsnum
  | JStr string
  | JArr "jsval list"
  | JObj "(string \<times> jsval) list"

subsection \<open>Digits and decimal numerals\<close>

definition is_digit :: "char \<Rightarrow> bool" where
  "is_digit c = (c \<in> set ''0123456789'')"

text \<open>The value of a digit: its code unit minus that of \<^verbatim>\<open>0\<close>.\<close>

definition digit_val :: "char \<Rightarrow> nat" where
  "digit_val c = of_char c - 48"

definition digit_char :: "nat \<Rightarrow> char" where
  "digit_char n = ''0123456789'' ! n"

text \<open>\<^verbatim>\<open>BigInt(s)\<close> on a string of decimal digits (leading zeros allowed).\<close>

definition bigint_of_digits :: "string \<Rightarrow> nat" where
  "bigint_of_digits s = foldl (\<lambda>acc c. 10 * acc + digit_val c) 0 s"

text \<open>\<^verbatim>\<open>n.toString()\<close> of a nonnegative BigInt: decimal digits, no leading zero.\<close>

fun bigint_toString :: "nat \<Rightarrow> string" where
  "bigint_toString n =
     (if n < 10 then [digit_char n] else bigint_toString (n div 10) @ [digit_char (n mod 10)])"

subsection \<open>String built-ins\<close>

text \<open>
  \<^verbatim>\<open>String.prototype.trim\<close> and the regular-expression class \<^verbatim>\<open>\s\<close> use the same set:
  WhiteSpace and LineTerminator. Among the code units 0..255 these are TAB, LF, VT, FF,
  CR, SPACE and NBSP (0xA0).
\<close>

definition is_ws :: "char \<Rightarrow> bool" where
  "is_ws c = (of_char c \<in> {9, 10, 11, 12, 13, 32, 160 :: nat})"

definition js_trim :: "string \<Rightarrow> string" where
  "js_trim s = rev (dropWhile is_ws (rev (dropWhile is_ws s)))"

text \<open>\<^verbatim>\<open>s.replaceAll(c, '')\<close> for a one-character pattern.\<close>

definition js_removeAll :: "char \<Rightarrow> string \<Rightarrow> string" where
  "js_removeAll c s = filter (\<lambda>x. x \<noteq> c) s"

text \<open>
  \<^verbatim>\<open>s.split(/\s+/)[0]\<close>: the part of \<open>s\<close> before its first run of whitespace (the empty
  string when \<open>s\<close> is empty or starts with whitespace).
\<close>

definition js_split_ws_first :: "string \<Rightarrow> string" where
  "js_split_ws_first s = takeWhile (\<lambda>c. \<not> is_ws c) s"

text \<open>\<^verbatim>\<open>/^[0-9]+$/.test(s)\<close>\<close>

definition all_digits :: "string \<Rightarrow> bool" where
  "all_digits s = (s \<noteq> [] \<and> list_all is_digit s)"

text \<open>
  \<^verbatim>\<open>s.match(/^([+]?[0-9]+)(?:\.([0-9]+))?$/)\<close>: on a match, group 1 and group 2
  (\<open>None\<close> for \<^verbatim>\<open>undefined\<close>).
\<close>

definition match_decimal :: "string \<Rightarrow> (string \<times> string option) option" where
  "match_decimal s =
     (let sign = (if s \<noteq> [] \<and> hd s = CHR ''+'' then ''+'' else []);
          rest = drop (length sign) s;
          ds = takeWhile is_digit rest;
          tail = dropWhile is_digit rest
      in if ds = [] then None
         else if tail = [] then Some (sign @ ds, None)
         else if hd tail = CHR ''.'' \<and> all_digits (tl tail) then Some (sign @ ds, Some (tl tail))
         else None)"

text \<open>\<^verbatim>\<open>m1.replace(/^\+/, '')\<close>\<close>

definition strip_plus :: "string \<Rightarrow> string" where
  "strip_plus s = (if s \<noteq> [] \<and> hd s = CHR ''+'' then tl s else s)"

subsection \<open>Number built-ins\<close>

definition js_isFinite :: "jsnum \<Rightarrow> bool" where
  "js_isFinite x = (case x of NaN \<Rightarrow> False | PosInfinity \<Rightarrow> False | NegInfinity \<Rightarrow> False | _ \<Rightarrow> True)"

definition js_isInteger :: "jsnum \<Rightarrow> bool" where
  "js_isInteger x = (case x of Dyadic n k \<Rightarrow> 2 ^ k dvd n | Large _ _ _ _ \<Rightarrow> True | _ \<Rightarrow> False)"

definition js_nonneg :: "jsnum \<Rightarrow> bool" where
  "js_nonneg x = (case x of Dyadic n k \<Rightarrow> 0 \<le> n | Large neg _ _ _ \<Rightarrow> \<not> neg
                   | PosInfinity \<Rightarrow> True | _ \<Rightarrow> False)"

text \<open>
  \<^verbatim>\<open>Number::toString\<close> of a double above \<open>2^53\<close> with shortest decimal \<open>s * 10^z\<close>: with
  \<open>k\<close> the number of digits of \<open>s\<close> and \<open>n = k + z\<close>, the digits followed by \<open>z\<close> zeros
  when \<open>n \<le> 21\<close>, and exponent notation otherwise.
\<close>

definition large_toString :: "nat \<Rightarrow> nat \<Rightarrow> string" where
  "large_toString s z =
     (let ds = bigint_toString s; n = length ds + z
      in if n \<le> 21 then ds @ replicate z CHR ''0''
         else (if length ds = 1 then ds else hd ds # CHR ''.'' # tl ds)
              @ ''e+'' @ bigint_toString (n - 1))"

text \<open>\<^verbatim>\<open>String(x)\<close> for a finite integer \<open>x \<ge> 0\<close> (the only use in the module).\<close>

definition js_String_int :: "jsnum \<Rightarrow> string" where
  "js_String_int x =
     (case x of Dyadic n k \<Rightarrow> bigint_toString (nat (n div 2 ^ k))
              | Large neg m s z \<Rightarrow> large_toString s z
              | _ \<Rightarrow> [])"

text \<open>
  \<^verbatim>\<open>x.toFixed(f)\<close> for finite \<open>x\<close> and \<open>f \<le> 100\<close>: the sign, then the integer nearest
  to \<open>|x| * 10^f\<close> (the larger one on a tie) printed with a point before its last \<open>f\<close>
  digits, padded with zeros to at least one digit before the point. Magnitudes from
  \<open>10^21\<close> on print as \<^verbatim>\<open>Number::toString\<close> does.
\<close>

definition fixed_digits :: "nat \<Rightarrow> nat \<Rightarrow> string" where
  "fixed_digits q f =
     (let m = bigint_toString q;
          m = (if f \<noteq> 0 \<and> length m \<le> f then replicate (f + 1 - length m) CHR ''0'' @ m else m)
      in if f = 0 then m
         else take (length m - f) m @ ''.'' @ drop (length m - f) m)"

definition js_toFixed :: "jsnum \<Rightarrow> nat \<Rightarrow> string" where
  "js_toFixed x f =
     (case x of
        Dyadic n k \<Rightarrow>
          (if n < 0 then ''-'' else []) @
          fixed_digits ((2 * nat \<bar>n\<bar> * 10 ^ f + 2 ^ k) div 2 ^ (k + 1)) f
      | Large neg m s z \<Rightarrow>
          (if neg then ''-'' else []) @
          (if 10 ^ 21 \<le> m then large_toString s z else fixed_digits (m * 10 ^ f) f)
      | _ \<Rightarrow> [])"

section \<open>The coercers of \<^verbatim>\<open>repair.js\<close>\<close>

text \<open>\<^verbatim>\<open>isObject(v)\<close>: truthy, of type object, and not an array.\<close>

definition isObject :: "jsval \<Rightarrow> bool" where
  "isObject v = (case v of JObj _ \<Rightarrow> True | _ \<Rightarrow> False)"

fun pow10BigInt :: "nat \<Rightarrow> nat" where
  "pow10BigInt 0 = 1"
| "pow10BigInt (Suc n) = pow10BigInt n * 10"

text \<open>
  The string branch of \<^verbatim>\<open>decimalToAtomicString\<close>. Every \<^verbatim>\<open>return value\<close> of the source is
  \<open>None\<close> here (the caller then returns the string it was given); a converted result is
  \<open>Some\<close>. The test \<^verbatim>\<open>atomic < 0n\<close> of the source cannot succeed, both BigInts being read
  from digit strings.
\<close>

definition atomic_of_string :: "string \<Rightarrow> nat \<Rightarrow> string option" where
  "atomic_of_string v decimals =
     (let s = js_trim v in
      if s = [] then None else
      let s = js_removeAll CHR '','' (js_removeAll CHR ''_'' s);
          s = js_split_ws_first s in
      if s = [] then None else
      if all_digits s then Some s else
      let s = (if hd s = CHR ''.'' then CHR ''0'' # s else s);
          s = (if last s = CHR ''.'' then s @ ''0'' else s) in
      case match_decimal s of
        None \<Rightarrow> None
      | Some (m1, m2) \<Rightarrow>
          let intPart = strip_plus m1;
              fracPart = (case m2 of None \<Rightarrow> [] | Some f \<Rightarrow> f) in
          if length fracPart > decimals then None else
          let fracPadded = take decimals (fracPart @ replicate decimals CHR ''0'');
              atomic = bigint_of_digits (if intPart = [] then ''0'' else intPart) * pow10BigInt decimals
                       + bigint_of_digits (if fracPadded = [] then ''0'' else fracPadded)
          in Some (bigint_toString atomic))"

definition string_branch :: "string \<Rightarrow> nat \<Rightarrow> jsval" where
  "string_branch v decimals =
     (case atomic_of_string v decimals of None \<Rightarrow> JStr v | Some r \<Rightarrow> JStr r)"

text \<open>
  \<^verbatim>\<open>decimalToAtomicString(value, decimals)\<close>. The number branch calls the function again on
  the string \<^verbatim>\<open>value.toFixed(decimals)\<close>, so that call runs the string branch with that
  string as its \<^verbatim>\<open>value\<close>. The module calls it with 6 and 9 decimals only.
\<close>

definition decimalToAtomicString :: "jsval \<Rightarrow> nat \<Rightarrow> jsval" where
  "decimalToAtomicString v decimals =
     (case v of
        JNull \<Rightarrow> v
      | JUndefined \<Rightarrow> v
      | JNum x \<Rightarrow>
          if \<not> js_isFinite x then v
          else if js_isInteger x \<and> js_nonneg x then JStr (js_String_int x)
          else string_branch (js_toFixed x decimals) decimals
      | JStr s \<Rightarrow> string_branch s decimals
      | _ \<Rightarrow> v)"

definition coerceUsdtAtomic :: "jsval \<Rightarrow> jsval" where
  "coerceUsdtAtomic v = decimalToAtomicString v 6"

definition coerceSolLamports :: "jsval \<Rightarrow> jsval" where
  "coerceSolLamports v = decimalToAtomicString v 9"


section \<open>\<^verbatim>\<open>repairToolArguments\<close>\<close>

type_synonym jsobj = "(string \<times> jsval) list"

text \<open>Property read \<^verbatim>\<open>obj[k]\<close> (\<^verbatim>\<open>undefined\<close> when absent) and the test \<^verbatim>\<open>k in obj\<close>.\<close>

definition js_get :: "jsobj \<Rightarrow> string \<Rightarrow> jsval" where
  "js_get obj k = (case map_of obj k of None \<Rightarrow> JUndefined | Some v \<Rightarrow> v)"

definition js_in :: "string \<Rightarrow> jsobj \<Rightarrow> bool" where
  "js_in k obj = (map_of obj k \<noteq> None)"

definition isArray :: "jsval \<Rightarrow> bool" where
  "isArray v = (case v of JArr _ \<Rightarrow> True | _ \<Rightarrow> False)"

definition arr_elems :: "jsval \<Rightarrow> jsval list" where
  "arr_elems v = (case v of JArr xs \<Rightarrow> xs | _ \<Rightarrow> [])"

text \<open>\<^verbatim>\<open>xs[0]\<close> of an array: \<^verbatim>\<open>undefined\<close> when it is empty.\<close>

definition arr_first :: "jsval list \<Rightarrow> jsval" where
  "arr_first xs = (case xs of [] \<Rightarrow> JUndefined | x # _ \<Rightarrow> x)"

text \<open>The own properties of a value, as \<^verbatim>\<open>{ ...v }\<close> copies them from an object.\<close>

definition obj_props :: "jsval \<Rightarrow> jsobj" where
  "obj_props v = (case v of JObj ps \<Rightarrow> ps | _ \<Rightarrow> [])"

definition offerKeys :: "string list" where
  "offerKeys =
     [''pair'', ''have'', ''want'', ''btc_sats'', ''usdt_amount'', ''max_platform_fee_bps'',
      ''max_trade_fee_bps'', ''max_total_fee_bps'', ''min_sol_refund_window_sec'',
      ''max_sol_refund_window_sec'']"

text \<open>
  The \<^verbatim>\<open>channel\<close> repair of the \<^verbatim>\<open>intercomswap_offer_post\<close> branch: a nonblank string
  \<^verbatim>\<open>channel\<close> becomes the one-element array \<^verbatim>\<open>channels\<close> unless \<^verbatim>\<open>channels\<close> is an array.
\<close>

definition repair_channel :: "jsobj \<Rightarrow> jsobj" where
  "repair_channel out =
     (case js_get out ''channel'' of
        JStr c \<Rightarrow>
          if \<not> isArray (js_get out ''channels'') \<and> js_trim c \<noteq> []
          then AList.delete ''channel'' (AList.update ''channels'' (JArr [JStr (js_trim c)]) out)
          else out
      | _ \<Rightarrow> out)"

text \<open>
  The flattening step. \<open>flattened\<close> are the offer keys present at the top level. With no
  usable first offer, \<^verbatim>\<open>offers\<close> becomes one new object holding them; otherwise they are
  merged into a copy of \<^verbatim>\<open>offers[0]\<close>, a key already there keeping its value, and the
  other offers follow. Then the flattened keys are deleted from the top level.
\<close>

definition flatten_offers :: "jsobj \<Rightarrow> jsobj" where
  "flatten_offers out =
     (let flattened = filter (\<lambda>k. js_in k out) offerKeys in
      if length flattened > 0 then
        let offers = js_get out ''offers'';
            out1 =
              (if \<not> isArray offers \<or> length (arr_elems offers) = 0
                  \<or> \<not> isObject (arr_first (arr_elems offers))
               then
                 let obj = foldl (\<lambda>obj k. AList.update k (js_get out k) obj) [] flattened
                 in AList.update ''offers'' (JArr [JObj obj]) out
               else
                 let merged = foldl (\<lambda>m k. if \<not> js_in k m then AList.update k (js_get out k) m else m)
                                (obj_props (arr_first (arr_elems offers))) flattened
                 in AList.update ''offers'' (JArr ([JObj merged] @ drop 1 (arr_elems offers))) out)
        in foldl (\<lambda>obj k. AList.delete k obj) out1 flattened
      else out)"

text \<open>The callback of \<^verbatim>\<open>out.offers.map\<close>: coerce the \<^verbatim>\<open>usdt_amount\<close> of an offer object.\<close>

definition coerce_offer :: "jsval \<Rightarrow> jsval" where
  "coerce_offer offer =
     (if \<not> isObject offer then offer
      else if \<not> js_in ''usdt_amount'' (obj_props offer) then offer
      else JObj (AList.update ''usdt_amount''
                   (coerceUsdtAtomic (js_get (obj_props offer) ''usdt_amount'')) (obj_props offer)))"

definition coerce_offers :: "jsobj \<Rightarrow> jsobj" where
  "coerce_offers out =
     (if isArray (js_get out ''offers'')
      then AList.update ''offers'' (JArr (map coerce_offer (arr_elems (js_get out ''offers'')))) out
      else out)"

definition repairToolArguments :: "string \<Rightarrow> jsval \<Rightarrow> jsval" where
  "repairToolArguments toolName args =
     (if \<not> isObject args then args
      else if toolName = ''intercomswap_offer_post'' then
        JObj (coerce_offers (flatten_offers (repair_channel (obj_props args))))
      else if toolName = ''intercomswap_rfq_post'' \<or> toolName = ''intercomswap_quote_post''
              \<or> toolName = ''intercomswap_terms_post'' then
        (let out = obj_props args in
         JObj (if js_in ''usdt_amount'' out
               then AList.update ''usdt_amount'' (coerceUsdtAtomic (js_get out ''usdt_amount'')) out
               else out))
      else if toolName = ''intercomswap_sol_airdrop'' \<or> toolName = ''intercomswap_sol_transfer_sol'' then
        (let out = obj_props args in
         JObj (if js_in ''lamports'' out
               then AList.update ''lamports'' (coerceSolLamports (js_get out ''lamports'')) out
               else out))
      else args)"

section \<open>Notions used to state the properties\<close>

text \<open>A string without whitespace.\<close>

definition no_ws :: "string \<Rightarrow> bool" where
  "no_ws s = list_all (\<lambda>c. \<not> is_ws c) s"

text \<open>
  The token \<^verbatim>\<open>decimalToAtomicString\<close> goes on to parse: the trimmed string without
  underscores and commas, up to its first whitespace.
\<close>

definition first_token :: "string \<Rightarrow> string" where
  "first_token v = js_split_ws_first (js_removeAll CHR '','' (js_removeAll CHR ''_'' (js_trim v)))"

text \<open>
  The layout of a decimal numeral without a minus sign: an optional \<^verbatim>\<open>+\<close>, digits, and
  optionally a point followed by digits (either run of digits may be empty).
\<close>

definition numeral_layout :: "string \<Rightarrow> bool" where
  "numeral_layout s =
     (let t = dropWhile is_digit (strip_plus s)
      in t = [] \<or> (hd t = CHR ''.'' \<and> list_all is_digit (tl t)))"

text \<open>
  A token shaped like a nonnegative decimal numeral: it has that layout and starts with
  the point or has a digit right after the optional sign.
\<close>

definition numeral_shape :: "string \<Rightarrow> bool" where
  "numeral_shape s =
     (numeral_layout s \<and> s \<noteq> []
      \<and> (hd s = CHR ''.'' \<or> (strip_plus s \<noteq> [] \<and> is_digit (hd (strip_plus s)))))"

text \<open>A string without whitespace, underscore or comma: trimming and stripping keep it.\<close>

definition clean :: "string \<Rightarrow> bool" where
  "clean s = list_all (\<lambda>c. \<not> is_ws c \<and> c \<noteq> CHR ''_'' \<and> c \<noteq> CHR '','') s"

text \<open>\<^verbatim>\<open>typeof v\<close>\<close>

definition js_typeof :: "jsval \<Rightarrow> string" where
  "js_typeof v =
     (case v of JUndefined \<Rightarrow> ''undefined'' | JNull \<Rightarrow> ''object'' | JBool _ \<Rightarrow> ''boolean''
              | JNum _ \<Rightarrow> ''number'' | JStr _ \<Rightarrow> ''string'' | JArr _ \<Rightarrow> ''object''
              | JObj _ \<Rightarrow> ''object'')"

text \<open>A value that is a string of decimal digits.\<close>

definition pure_digit_string :: "jsval \<Rightarrow> bool" where
  "pure_digit_string v = (case v of JStr r \<Rightarrow> all_digits r | _ \<Rightarrow> False)"

text \<open>
  The offers of an argument object, whether its first offer is an object that the
  flattening step merges into, and the properties of that first offer.
\<close>

definition offers_of :: "jsobj \<Rightarrow> jsval list" where
  "offers_of obj = arr_elems (js_get obj ''offers'')"

definition usable_first_offer :: "jsobj \<Rightarrow> bool" where
  "usable_first_offer obj =
     (isArray (js_get obj ''offers'') \<and> offers_of obj \<noteq> [] \<and> isObject (arr_first (offers_of obj)))"

definition first_offer :: "jsobj \<Rightarrow> jsobj" where
  "first_offer obj = obj_props (arr_first (offers_of obj))"

section \<open>Swap envelopes and trades\<close>

text \<open>
  Modelled from the spec: the modules \<^verbatim>\<open>src/swap/stateMachine.js\<close>, \<^verbatim>\<open>src/swap/schema.js\<close>,
  \<^verbatim>\<open>src/swap/hash.js\<close> and \<^verbatim>\<open>src/swap/verify.js\<close> are not among the source files (only the
  end-to-end test that calls them is), so the envelope kinds, the bodies, the trade record
  and the error kinds below follow the data model, the schema list and the error list of
  the specification. Token amounts are the atomic integers that the decimal strings on
  the wire denote. First the envelope kinds (section 6).
\<close>

datatype kind =
    KIND_RFQ | KIND_QUOTE | KIND_QUOTE_ACCEPT | KIND_SWAP_INVITE
  | KIND_TERMS | KIND_ACCEPT | KIND_LN_INVOICE | KIND_SOL_ESCROW_CREATED
  | KIND_LN_PAID | KIND_SOL_CLAIMED | KIND_STATUS | KIND_CANCEL

text \<open>Modelled from the spec: the states of a trade (section 3).\<close>

datatype state =
    STATE_INIT | STATE_TERMS | STATE_ACCEPTED | STATE_INVOICE | STATE_ESCROW
  | STATE_LN_PAID | STATE_CLAIMED | STATE_CANCELLED | STATE_REFUNDED

text \<open>Modelled from the spec: the error kinds of sections 4.2, 4.4 and 7.\<close>

datatype reason =
    BadSig | MalformedKey | CanonMismatch | SchemaInvalid | UnknownKind | WrongTradeId
  | IllegalTransition | MismatchedBinding | DuplicateTerms | StaleExpiry | AlreadyApplied
  | EscrowMissing | EscrowWrongOwner | EscrowAmountMismatch | EscrowTimeTooTight
  | PayHashMismatch | VaultUnderfunded | Timeout | Disconnected | RPCFailure

text \<open>Modelled from the spec: the body of \<^verbatim>\<open>TERMS\<close> (section 4.3).\<close>

record terms_body =
  pair :: string
  direction :: string
  btc_sats :: nat
  usdt_amount :: nat
  usdt_decimals :: nat
  sol_mint :: string
  sol_recipient :: string
  sol_refund :: string
  sol_refund_after_unix :: int
  ln_receiver_peer :: string
  ln_payer_peer :: string
  terms_valid_until_unix :: int

text \<open>Modelled from the spec: the body of \<^verbatim>\<open>LN_INVOICE\<close>.\<close>

record invoice_body =
  bolt11 :: string
  inv_payment_hash_hex :: string
  amount_msat :: nat

text \<open>Modelled from the spec: the body of \<^verbatim>\<open>SOL_ESCROW_CREATED\<close>.\<close>

record escrow_body =
  esc_payment_hash_hex :: string
  esc_program_id :: string
  esc_escrow_pda :: string
  esc_vault_ata :: string
  esc_mint :: string
  esc_amount :: nat
  esc_refund_after_unix :: int
  esc_recipient :: string
  esc_refund :: string
  esc_tx_sig :: string

text \<open>Modelled from the spec: the body of \<^verbatim>\<open>LN_PAID\<close>, its preimage optional.\<close>

record paid_body =
  paid_payment_hash_hex :: string
  paid_preimage_hex :: "string option"

text \<open>Modelled from the spec: the body of \<^verbatim>\<open>SOL_CLAIMED\<close>.\<close>

record claim_body =
  claim_payment_hash_hex :: string
  claim_escrow_pda :: string
  claim_tx_sig :: string

text \<open>
  Modelled from the spec: one body per envelope kind of the settlement phase; the bodies
  of \<^verbatim>\<open>RFQ\<close>, \<^verbatim>\<open>QUOTE\<close>, \<^verbatim>\<open>QUOTE_ACCEPT\<close>, \<^verbatim>\<open>SWAP_INVITE\<close> and \<^verbatim>\<open>STATUS\<close>, which no transition of
  the trade reads, are kept as their list of field values.
\<close>

datatype body =
    TermsBody terms_body
  | AcceptBody string
  | InvoiceBody invoice_body
  | EscrowBody escrow_body
  | PaidBody paid_body
  | ClaimBody claim_body
  | CancelBody string
  | OtherBody "string list"

text \<open>Modelled from the spec: the signed envelope (section 3 and 6).\<close>

record envelope =
  env_v :: nat
  env_kind :: kind
  env_trade_id :: string
  env_body :: body
  env_signer_pubkey :: string
  env_signature :: string

text \<open>
  Modelled from the spec: the trade record of the data model. The field \<open>applied\<close> holds
  the identifiers (envelope hashes) of the envelopes applied so far; the spec's list of
  fields does not name it, and it is what lets \<open>apply\<close> tell the replay of an envelope
  from a different envelope of the same kind.
\<close>

record trade =
  trade_id :: string
  state :: state
  terms :: "terms_body option"
  invoice :: "invoice_body option"
  escrow :: "escrow_body option"
  paid :: "paid_body option"
  claim :: "claim_body option"
  rfq_id :: "string option"
  quote_id :: "string option"
  terms_hash :: "string option"
  payment_hash :: "string option"
  peers :: "string list"
  applied :: "string list"

text \<open>
  Modelled from the spec: signature verification and the envelope hash are cryptographic
  collaborators (section 4.1 and 4.2); they and the clock are parameters of \<open>apply\<close>. The
  hash is taken over the unsigned envelope.
\<close>

record config =
  cfg_verify :: "envelope \<Rightarrow> bool"
  cfg_hash :: "nat \<times> kind \<times> string \<times> body \<Rightarrow> string"
  cfg_now_unix :: int

text \<open>Modelled from the spec: the envelope hash, taken over the unsigned part of the envelope.\<close>

definition hashUnsignedEnvelope :: "config \<Rightarrow> envelope \<Rightarrow> string" where
  "hashUnsignedEnvelope cfg e = cfg_hash cfg (env_v e, env_kind e, env_trade_id e, env_body e)"

text \<open>Modelled from the spec: \<open>create_initial(trade_id)\<close>, state \<^verbatim>\<open>INIT\<close> and no bindings.\<close>

definition createInitialTrade :: "string \<Rightarrow> trade" where
  "createInitialTrade tid =
     \<lparr> trade_id = tid, state = STATE_INIT, terms = None, invoice = None, escrow = None,
       paid = None, claim = None, rfq_id = None, quote_id = None, terms_hash = None,
       payment_hash = None, peers = [], applied = [] \<rparr>"

text \<open>
  Modelled from the spec: the schema validator (section 4.3) on the typed bodies: the body
  is the one of the envelope's kind, hex32 fields are 64 lowercase hex characters, and
  pair and direction are in their enumerations.
\<close>

definition is_hex32 :: "string \<Rightarrow> bool" where
  "is_hex32 h = (length h = 64 \<and> list_all (\<lambda>c. c \<in> set ''0123456789abcdef'') h)"

text \<open>Modelled from the spec: the schema check of an envelope.\<close>

definition validateSwapEnvelope :: "envelope \<Rightarrow> bool" where
  "validateSwapEnvelope e =
     (case env_body e of
        TermsBody b \<Rightarrow> env_kind e = KIND_TERMS \<and> pair b = ''BTC_LN/USDT_SOL''
                        \<and> direction b \<in> {''BTC_LN->USDT_SOL'', ''USDT_SOL->BTC_LN''}
      | AcceptBody h \<Rightarrow> env_kind e = KIND_ACCEPT \<and> is_hex32 h
      | InvoiceBody b \<Rightarrow> env_kind e = KIND_LN_INVOICE \<and> is_hex32 (inv_payment_hash_hex b)
      | EscrowBody b \<Rightarrow> env_kind e = KIND_SOL_ESCROW_CREATED \<and> is_hex32 (esc_payment_hash_hex b)
      | PaidBody b \<Rightarrow> env_kind e = KIND_LN_PAID \<and> is_hex32 (paid_payment_hash_hex b)
                       \<and> (case paid_preimage_hex b of None \<Rightarrow> True | Some p \<Rightarrow> is_hex32 p)
      | ClaimBody b \<Rightarrow> env_kind e = KIND_SOL_CLAIMED \<and> is_hex32 (claim_payment_hash_hex b)
      | CancelBody r \<Rightarrow> env_kind e = KIND_CANCEL
      | OtherBody fs \<Rightarrow> env_kind e \<in> {KIND_RFQ, KIND_QUOTE, KIND_QUOTE_ACCEPT, KIND_SWAP_INVITE,
                                         KIND_STATUS})"

text \<open>Modelled from the spec: \<^verbatim>\<open>CLAIMED\<close>, \<^verbatim>\<open>CANCELLED\<close> and \<^verbatim>\<open>REFUNDED\<close> are terminal.\<close>

definition terminal :: "state \<Rightarrow> bool" where
  "terminal s = (s = STATE_CLAIMED \<or> s = STATE_CANCELLED \<or> s = STATE_REFUNDED)"

text \<open>
  Modelled from the spec: the binding of \<^verbatim>\<open>SOL_ESCROW_CREATED\<close>, "all mirrored fields
  match TERMS": amount, mint, recipient and refund. The spec lists \<open>refund_after_unix\<close>
  among the mirrored fields too, but the repository's end-to-end test writes the terms
  with \<open>sol_refund_after_unix\<close> from one clock reading, creates the escrow with a refund
  time from a later reading, applies that envelope and asserts success and the state
  \<^verbatim>\<open>ESCROW\<close>. So the program accepts an escrow whose refund time differs from the terms',
  and the refund time is not compared here.
\<close>

definition escrow_mirrors_terms :: "escrow_body \<Rightarrow> terms_body \<Rightarrow> bool" where
  "escrow_mirrors_terms b tm =
     (esc_amount b = usdt_amount tm \<and> esc_mint b = sol_mint tm
      \<and> esc_recipient b = sol_recipient tm \<and> esc_refund b = sol_refund tm)"

text \<open>
  Modelled from the spec: the table of legal transitions (section 4.4) with its bindings.
  A \<^verbatim>\<open>TERMS\<close> envelope past \<open>terms_valid_until_unix\<close> is \<open>StaleExpiry\<close>; a further \<^verbatim>\<open>TERMS\<close> for a
  trade that has terms is \<open>DuplicateTerms\<close>; a further envelope of a kind whose body the
  trade already holds is \<open>AlreadyApplied\<close>; a failed binding is \<open>MismatchedBinding\<close>; every
  other combination is \<open>IllegalTransition\<close>.
\<close>

definition transition :: "config \<Rightarrow> trade \<Rightarrow> envelope \<Rightarrow> reason + trade" where
  "transition cfg t e =
     (case env_body e of
        TermsBody b \<Rightarrow>
          if state t = STATE_INIT then
            (if terms_valid_until_unix b < cfg_now_unix cfg then Inl StaleExpiry
             else Inr (t\<lparr>state := STATE_TERMS, terms := Some b,
                         terms_hash := Some (hashUnsignedEnvelope cfg e)\<rparr>))
          else if terms t \<noteq> None then Inl DuplicateTerms
          else Inl IllegalTransition
      | AcceptBody h \<Rightarrow>
          if state t = STATE_TERMS then
            (if terms_hash t = Some h then Inr (t\<lparr>state := STATE_ACCEPTED\<rparr>)
             else Inl MismatchedBinding)
          else Inl IllegalTransition
      | InvoiceBody b \<Rightarrow>
          if state t = STATE_ACCEPTED then
            Inr (t\<lparr>state := STATE_INVOICE, invoice := Some b,
                    payment_hash := Some (inv_payment_hash_hex b)\<rparr>)
          else if invoice t \<noteq> None then Inl AlreadyApplied
          else Inl IllegalTransition
      | EscrowBody b \<Rightarrow>
          if state t = STATE_INVOICE then
            (if payment_hash t = Some (esc_payment_hash_hex b)
                \<and> (case terms t of None \<Rightarrow> False | Some tm \<Rightarrow> escrow_mirrors_terms b tm)
             then Inr (t\<lparr>state := STATE_ESCROW, escrow := Some b\<rparr>)
             else Inl MismatchedBinding)
          else if escrow t \<noteq> None then Inl AlreadyApplied
          else Inl IllegalTransition
      | PaidBody b \<Rightarrow>
          if state t = STATE_ESCROW then
            (if payment_hash t = Some (paid_payment_hash_hex b)
             then Inr (t\<lparr>state := STATE_LN_PAID, paid := Some b\<rparr>)
             else Inl MismatchedBinding)
          else if paid t \<noteq> None then Inl AlreadyApplied
          else Inl IllegalTransition
      | ClaimBody b \<Rightarrow>
          if state t = STATE_LN_PAID then
            (if payment_hash t = Some (claim_payment_hash_hex b)
                \<and> map_option esc_escrow_pda (escrow t) = Some (claim_escrow_pda b)
             then Inr (t\<lparr>state := STATE_CLAIMED, claim := Some b\<rparr>)
             else Inl MismatchedBinding)
          else if claim t \<noteq> None then Inl AlreadyApplied
          else Inl IllegalTransition
      | CancelBody r \<Rightarrow>
          if \<not> terminal (state t) then Inr (t\<lparr>state := STATE_CANCELLED\<rparr>)
          else Inl IllegalTransition
      | OtherBody fs \<Rightarrow> Inl IllegalTransition)"

text \<open>
  Modelled from the spec: \<open>apply(trade, signed_envelope)\<close>. The validation rejections come
  first (signature, schema, trade id); the replay of an envelope already applied is a
  no-op success; otherwise the transition table decides, and a successful transition
  records the envelope and its signer. A rejection leaves the trade as it is.
\<close>

definition applySwapEnvelope :: "config \<Rightarrow> trade \<Rightarrow> envelope \<Rightarrow> reason + trade" where
  "applySwapEnvelope cfg t e =
     (if \<not> cfg_verify cfg e then Inl BadSig
      else if \<not> validateSwapEnvelope e then Inl SchemaInvalid
      else if env_trade_id e \<noteq> trade_id t then Inl WrongTradeId
      else if hashUnsignedEnvelope cfg e \<in> set (applied t) then Inr t
      else case transition cfg t e of
             Inl r \<Rightarrow> Inl r
           | Inr t' \<Rightarrow> Inr (t'\<lparr>peers := List.insert (env_signer_pubkey e) (peers t'),
                                applied := hashUnsignedEnvelope cfg e # applied t'\<rparr>))"

text \<open>The trade after an application: the new record on success, the old one on a rejection.\<close>

definition trade_after :: "config \<Rightarrow> trade \<Rightarrow> envelope \<Rightarrow> trade" where
  "trade_after cfg t e = (case applySwapEnvelope cfg t e of Inl r \<Rightarrow> t | Inr t' \<Rightarrow> t')"

text \<open>
  Modelled from the spec: the refund observation, from \<^verbatim>\<open>ESCROW\<close> or the later non-terminal
  state \<^verbatim>\<open>LN_PAID\<close> once the escrow's timeout is reached.
\<close>

definition observeRefund :: "int \<Rightarrow> trade \<Rightarrow> reason + trade" where
  "observeRefund now t =
     (if (state t = STATE_ESCROW \<or> state t = STATE_LN_PAID)
         \<and> (case escrow t of None \<Rightarrow> False | Some b \<Rightarrow> esc_refund_after_unix b \<le> now)
      then Inr (t\<lparr>state := STATE_REFUNDED\<rparr>)
      else Inl IllegalTransition)"

text \<open>The trades reachable from an initial trade by successful steps.\<close>

inductive reachable :: "trade \<Rightarrow> bool" where
  initial: "reachable (createInitialTrade tid)"
| applied: "reachable t \<Longrightarrow> applySwapEnvelope cfg t e = Inr t' \<Longrightarrow> reachable t'"
| refunded: "reachable t \<Longrightarrow> observeRefund now t = Inr t' \<Longrightarrow> reachable t'"

text \<open>
  The binding closure of a trade: its stored escrow mirrors its stored terms in amount,
  mint, recipient and refund, and names the payment hash of its stored invoice.
\<close>

definition binding_closed :: "trade \<Rightarrow> bool" where
  "binding_closed t =
     (case (terms t, invoice t, escrow t) of
        (Some tm, Some iv, Some esc) \<Rightarrow>
          esc_amount esc = usdt_amount tm \<and> esc_mint esc = sol_mint tm
          \<and> esc_recipient esc = sol_recipient tm \<and> esc_refund esc = sol_refund tm
          \<and> esc_payment_hash_hex esc = inv_payment_hash_hex iv
      | _ \<Rightarrow> False)"

text \<open>
  The invariant that carries the binding closure along the steps: no escrow is stored
  before the state \<^verbatim>\<open>ESCROW\<close>, one is stored from there on, the remembered payment hash is
  the invoice's, and a stored escrow is bound to the terms and the invoice.
\<close>

definition trade_invariant :: "trade \<Rightarrow> bool" where
  "trade_invariant t =
     ((state t \<in> {STATE_INIT, STATE_TERMS, STATE_ACCEPTED, STATE_INVOICE} \<longrightarrow> escrow t = None)
      \<and> (case invoice t of None \<Rightarrow> True
          | Some iv \<Rightarrow> payment_hash t = Some (inv_payment_hash_hex iv))
      \<and> (state t = STATE_INVOICE \<longrightarrow> invoice t \<noteq> None)
      \<and> (state t \<in> {STATE_ESCROW, STATE_LN_PAID, STATE_CLAIMED, STATE_REFUNDED} \<longrightarrow> escrow t \<noteq> None)
      \<and> (escrow t \<noteq> None \<longrightarrow> binding_closed t))"

text \<open>
  The happy path of the spec's first scenario (\<open>trade_id = "t1"\<close>, 50000 sats,
  100000000 atomic USDT, refund one hour after the clock reading), with a signature check
  that wants a nonempty signature and a hash that tells the kinds apart. As in the
  repository's end-to-end test, the terms take their refund time from the clock reading
  at the start (1700000000) and the escrow takes its own from a later reading
  (1700000005). It is used to run the state machine on concrete envelopes.
\<close>

definition example_cfg :: config where
  "example_cfg =
     \<lparr> cfg_verify = (\<lambda>e. env_signature e \<noteq> []),
       cfg_hash = (\<lambda>(v, k, tid, b). replicate 64
                     (case k of KIND_TERMS \<Rightarrow> CHR ''a'' | KIND_ACCEPT \<Rightarrow> CHR ''b''
                              | KIND_LN_INVOICE \<Rightarrow> CHR ''c'' | KIND_SOL_ESCROW_CREATED \<Rightarrow> CHR ''d''
                              | _ \<Rightarrow> CHR ''e'')),
       cfg_now_unix = 1700000000 \<rparr>"

definition example_terms :: terms_body where
  "example_terms =
     \<lparr> pair = ''BTC_LN/USDT_SOL'', direction = ''BTC_LN->USDT_SOL'', btc_sats = 50000,
       usdt_amount = 100000000, usdt_decimals = 6, sol_mint = ''mint'',
       sol_recipient = ''client'', sol_refund = ''service'',
       sol_refund_after_unix = 1700003600, ln_receiver_peer = ''alice'',
       ln_payer_peer = ''bob'', terms_valid_until_unix = 1700000300 \<rparr>"

definition example_invoice :: invoice_body where
  "example_invoice =
     \<lparr> bolt11 = ''lnbcrt500u1example'', inv_payment_hash_hex = replicate 64 CHR ''7'',
       amount_msat = 50000000 \<rparr>"

definition example_escrow :: escrow_body where
  "example_escrow =
     \<lparr> esc_payment_hash_hex = replicate 64 CHR ''7'', esc_program_id = ''program'',
       esc_escrow_pda = ''pda'', esc_vault_ata = ''vault'', esc_mint = ''mint'',
       esc_amount = 100000000, esc_refund_after_unix = 1700003605,
       esc_recipient = ''client'', esc_refund = ''service'', esc_tx_sig = ''sig'' \<rparr>"

definition example_envelope :: "kind \<Rightarrow> body \<Rightarrow> string \<Rightarrow> envelope" where
  "example_envelope k b signer =
     \<lparr> env_v = 1, env_kind = k, env_trade_id = ''t1'', env_body = b,
       env_signer_pubkey = signer, env_signature = ''signed'' \<rparr>"

definition example_trade_terms :: trade where
  "example_trade_terms =
     (createInitialTrade ''t1'')
       \<lparr> state := STATE_TERMS, terms := Some example_terms,
         terms_hash := Some (replicate 64 CHR ''a''), peers := [''alice''],
         applied := [replicate 64 CHR ''a''] \<rparr>"

definition example_trade_accepted :: trade where
  "example_trade_accepted =
     example_trade_terms
       \<lparr> state := STATE_ACCEPTED, peers := [''bob'', ''alice''],
         applied := [replicate 64 CHR ''b'', replicate 64 CHR ''a''] \<rparr>"

definition example_trade_invoice :: trade where
  "example_trade_invoice =
     example_trade_accepted
       \<lparr> state := STATE_INVOICE, invoice := Some example_invoice,
         payment_hash := Some (replicate 64 CHR ''7''),
         applied := [replicate 64 CHR ''c'', replicate 64 CHR ''b'', replicate 64 CHR ''a''] \<rparr>"

definition example_trade_escrow :: trade where
  "example_trade_escrow =
     example_trade_invoice
       \<lparr> state := STATE_ESCROW, escrow := Some example_escrow,
         applied := [replicate 64 CHR ''d'', replicate 64 CHR ''c'', replicate 64 CHR ''b'',
                     replicate 64 CHR ''a''] \<rparr>"

section \<open>The pre-pay verifier\<close>

text \<open>
  Modelled from the spec: \<^verbatim>\<open>src/swap/verify.js\<close> and the chain client are not among the source
  files, so the chain state read through the RPC handle and the six checks follow section
  4.5. An account is its owner and the escrow state its data parses into (\<open>None\<close> when it
  does not parse); \<open>derive_pda\<close> and the safety margin (600 seconds by default) are
  parameters. First the status of an escrow (section 4.6).
\<close>

datatype escrow_status = FUNDED | CLAIMED | REFUNDED


















section \<open>Evaluation lemmas\<close>

declare bigint_toString.simps [simp del]

lemma pow10BigInt_eq: "pow10BigInt n = 10 ^ n"
  by (induction n) simp_all

lemma replicate_numeral: "replicate (numeral k) x = x # replicate (pred_numeral k) x"
  by (simp add: numeral_eq_Suc)

lemma bigint_toString_numeral:
  "bigint_toString (numeral k) =
     (if (numeral k :: nat) < 10 then [digit_char (numeral k)]
      else bigint_toString (numeral k div 10) @ [digit_char (numeral k mod 10)])"
  by (rule bigint_toString.simps)

lemma bigint_toString_0: "bigint_toString 0 = ''0''"
  by (simp add: bigint_toString.simps digit_char_def)

lemma bigint_toString_1: "bigint_toString (Suc 0) = ''1''"
  by (simp add: bigint_toString.simps digit_char_def)

lemmas string_ev =
  js_trim_def is_ws_def js_removeAll_def js_split_ws_first_def all_digits_def is_digit_def
  match_decimal_def strip_plus_def bigint_of_digits_def digit_val_def digit_char_def Let_def
  pow10BigInt_eq replicate_numeral bigint_toString_numeral bigint_toString_0 bigint_toString_1

lemmas number_ev =
  js_isFinite_def js_isInteger_def js_nonneg_def js_String_int_def js_toFixed_def
  fixed_digits_def large_toString_def

lemmas coerce_ev =
  coerceUsdtAtomic_def coerceSolLamports_def decimalToAtomicString_def string_branch_def
  atomic_of_string_def

section \<open>Digits, numerals and tokens\<close>

lemma is_digit_cases:
  "is_digit c \<longleftrightarrow> c = CHR ''0'' \<or> c = CHR ''1'' \<or> c = CHR ''2'' \<or> c = CHR ''3'' \<or> c = CHR ''4''
     \<or> c = CHR ''5'' \<or> c = CHR ''6'' \<or> c = CHR ''7'' \<or> c = CHR ''8'' \<or> c = CHR ''9''"
  by (auto simp: is_digit_def)

lemma is_digit_not_ws: "is_digit c \<Longrightarrow> \<not> is_ws c"
  by (auto simp: is_digit_cases is_ws_def)

lemma is_digit_not_special:
  "is_digit c \<Longrightarrow> c \<noteq> CHR ''_'' \<and> c \<noteq> CHR '','' \<and> c \<noteq> CHR ''.'' \<and> c \<noteq> CHR ''+'' \<and> c \<noteq> CHR ''-'' \<and> c \<noteq> CHR ''e''"
  by (auto simp: is_digit_cases)


lemma digit_char_is_digit: "n < 10 \<Longrightarrow> is_digit (digit_char n)"
proof -
  assume "n < 10"
  then have "n \<in> {0,1,2,3,4,5,6,7,8,9}"
    by auto
  then show ?thesis
    by (elim insertE emptyE) (simp_all add: digit_char_def is_digit_def)
qed

lemma digit_val_digit_char: "n < 10 \<Longrightarrow> digit_val (digit_char n) = n"
proof -
  assume "n < 10"
  then have "n \<in> {0,1,2,3,4,5,6,7,8,9}"
    by auto
  then show ?thesis
    by (elim insertE emptyE) (simp_all add: digit_char_def digit_val_def)
qed

lemma bigint_toString_digits: "list_all is_digit (bigint_toString n)"
proof (induction n rule: bigint_toString.induct)
  case (1 n)
  show ?case
  proof (cases "n < 10")
    case True
    then show ?thesis by (simp add: bigint_toString.simps[of n] digit_char_is_digit)
  next
    case False
    with 1 show ?thesis by (simp add: bigint_toString.simps[of n] digit_char_is_digit)
  qed
qed

lemma bigint_toString_nonempty: "bigint_toString n \<noteq> []"
  by (subst bigint_toString.simps) simp

lemma all_digits_bigint_toString: "all_digits (bigint_toString n)"
  by (simp add: all_digits_def bigint_toString_digits bigint_toString_nonempty)

lemma bigint_foldl_acc:
  "foldl (\<lambda>acc c. 10 * acc + digit_val c) a ys
     = a * 10 ^ length ys + foldl (\<lambda>acc c. 10 * acc + digit_val c) 0 ys"
proof (induction ys arbitrary: a)
  case Nil
  then show ?case by simp
next
  case (Cons y ys)
  define f where "f = (\<lambda>acc c. 10 * acc + digit_val c)"
  have ih: "\<And>b. foldl f b ys = b * 10 ^ length ys + foldl f 0 ys"
    unfolding f_def by (rule Cons.IH)
  have "foldl f a (y # ys) = foldl f (10 * a + digit_val y) ys"
    by (simp add: f_def)
  also have "\<dots> = (10 * a + digit_val y) * 10 ^ length ys + foldl f 0 ys"
    by (rule ih)
  finally have l: "foldl f a (y # ys) = (10 * a + digit_val y) * 10 ^ length ys + foldl f 0 ys" .
  have "foldl f 0 (y # ys) = foldl f (digit_val y) ys"
    by (simp add: f_def)
  also have "\<dots> = digit_val y * 10 ^ length ys + foldl f 0 ys"
    by (rule ih)
  finally have r: "foldl f 0 (y # ys) = digit_val y * 10 ^ length ys + foldl f 0 ys" .
  have "foldl f a (y # ys) = a * 10 ^ length (y # ys) + foldl f 0 (y # ys)"
    unfolding l r by (simp add: algebra_simps)
  then show ?case unfolding f_def .
qed

lemma bigint_of_digits_append:
  "bigint_of_digits (xs @ ys) = bigint_of_digits xs * 10 ^ length ys + bigint_of_digits ys"
  unfolding bigint_of_digits_def foldl_append by (rule bigint_foldl_acc)

lemma bigint_of_digits_single: "bigint_of_digits [c] = digit_val c"
  by (simp add: bigint_of_digits_def)

lemma bigint_of_digits_Nil: "bigint_of_digits [] = 0"
  by (simp add: bigint_of_digits_def)

lemma bigint_of_digits_zeros: "bigint_of_digits (replicate k CHR ''0'') = 0"
  by (induction k) (simp_all add: bigint_of_digits_def digit_val_def)

lemma bigint_roundtrip: "bigint_of_digits (bigint_toString n) = n"
proof (induction n rule: bigint_toString.induct)
  case (1 n)
  show ?case
  proof (cases "n < 10")
    case True
    then show ?thesis
      by (simp add: bigint_toString.simps[of n] bigint_of_digits_single digit_val_digit_char)
  next
    case False
    with 1 show ?thesis
      by (simp add: bigint_toString.simps[of n] bigint_of_digits_append bigint_of_digits_single digit_val_digit_char)
  qed
qed

lemma no_ws_trim: "no_ws s \<Longrightarrow> js_trim s = s"
proof -
  assume a: "no_ws s"
  have 1: "dropWhile is_ws s = s" using a by (cases s) (auto simp: no_ws_def)
  have 2: "dropWhile is_ws (rev s) = rev s" using a by (cases "rev s") (auto simp: no_ws_def list_all_iff)
  show ?thesis by (simp add: js_trim_def 1 2)
qed

lemma no_ws_split: "no_ws s \<Longrightarrow> js_split_ws_first s = s"
  by (simp add: js_split_ws_first_def no_ws_def list_all_iff)

lemma all_digits_no_ws: "list_all is_digit s \<Longrightarrow> no_ws s"
  by (auto simp: no_ws_def list_all_iff is_digit_not_ws)

lemma digits_removeAll:
  assumes "list_all is_digit s" and "c = CHR ''_'' \<or> c = CHR '',''"
  shows "js_removeAll c s = s"
proof -
  have "x \<noteq> c" if "x \<in> set s" for x
  proof -
    from that assms(1) have "is_digit x" by (simp add: list_all_iff)
    from is_digit_not_special[OF this] assms(2) show ?thesis by blast
  qed
  then show ?thesis by (simp add: js_removeAll_def)
qed

lemma takeWhile_append_stop:
  "\<forall>x\<in>set a. P x \<Longrightarrow> b = [] \<or> \<not> P (hd b) \<Longrightarrow> takeWhile P (a @ b) = a"
  by (cases b) (simp_all add: takeWhile_append2)

lemma dropWhile_append_stop:
  "\<forall>x\<in>set a. P x \<Longrightarrow> b = [] \<or> \<not> P (hd b) \<Longrightarrow> dropWhile P (a @ b) = b"
  by (cases b) (simp_all add: dropWhile_append2)

lemma clean_no_ws: "clean s \<Longrightarrow> no_ws s"
  by (simp add: clean_def no_ws_def list_all_iff)

lemma clean_removeAll:
  "clean s \<Longrightarrow> js_removeAll CHR '','' (js_removeAll CHR ''_'' s) = s"
  by (simp add: clean_def js_removeAll_def list_all_iff)

lemma clean_first_token: "clean s \<Longrightarrow> first_token s = s"
  by (simp add: first_token_def clean_no_ws no_ws_trim clean_removeAll no_ws_split)


lemma trim_Nil_first_token: "js_trim v = [] \<Longrightarrow> first_token v = []"
  by (simp add: first_token_def js_removeAll_def js_split_ws_first_def)

text \<open>What the function does once the token is isolated.\<close>

lemma atomic_of_string_token:
  "atomic_of_string v d =
     (let s = first_token v in
      if s = [] then None else
      if all_digits s then Some s else
      let s = (if hd s = CHR ''.'' then CHR ''0'' # s else s);
          s = (if last s = CHR ''.'' then s @ ''0'' else s) in
      case match_decimal s of
        None \<Rightarrow> None
      | Some (m1, m2) \<Rightarrow>
          let intPart = strip_plus m1;
              fracPart = (case m2 of None \<Rightarrow> [] | Some f \<Rightarrow> f) in
          if length fracPart > d then None else
          let fracPadded = take d (fracPart @ replicate d CHR ''0'');
              atomic = bigint_of_digits (if intPart = [] then ''0'' else intPart) * pow10BigInt d
                       + bigint_of_digits (if fracPadded = [] then ''0'' else fracPadded)
          in Some (bigint_toString atomic))"
proof (cases "js_trim v = []")
  case True
  then show ?thesis by (simp add: atomic_of_string_def trim_Nil_first_token)
next
  case False
  then show ?thesis
    unfolding atomic_of_string_def first_token_def Let_def by simp
qed


lemma atomic_of_string_digits: "all_digits s \<Longrightarrow> atomic_of_string s d = Some s"
proof -
  assume a: "all_digits s"
  then have "clean s"
    by (auto simp: all_digits_def clean_def list_all_iff is_digit_not_ws dest: is_digit_not_special)
  then have "first_token s = s" by (rule clean_first_token)
  with a show ?thesis
    by (simp add: atomic_of_string_token all_digits_def)
qed


section \<open>Integer strings\<close>

text \<open>
  Claim C5. A string made of decimal digits only (one matching \<^verbatim>\<open>^[0-9]+$\<close>) is returned as
  it is by both coercers: \<open>coerceUsdtAtomic s = s\<close> and \<open>coerceSolLamports s = s\<close>.
\<close>

theorem integer_strings_pass_through:
  "all_digits s \<Longrightarrow> coerceUsdtAtomic (JStr s) = JStr s \<and> coerceSolLamports (JStr s) = JStr s"
  by (simp add: coerceUsdtAtomic_def coerceSolLamports_def decimalToAtomicString_def
      string_branch_def atomic_of_string_digits)

theorem integer_strings_pass_through_witness:
  "all_digits ''120000'' \<and> coerceUsdtAtomic (JStr ''120000'') = JStr ''120000''
     \<and> coerceSolLamports (JStr ''120000'') = JStr ''120000''"
  using integer_strings_pass_through[of "''120000''"]
  by (simp add: all_digits_def is_digit_def)

section \<open>The decimal pattern\<close>

lemma match_decimal_SomeD:
  assumes "match_decimal s = Some (m1, m2)"
  shows "\<exists>sg ds. (sg = [] \<or> sg = ''+'') \<and> ds \<noteq> [] \<and> list_all is_digit ds \<and> m1 = sg @ ds
           \<and> (case m2 of None \<Rightarrow> s = sg @ ds | Some f \<Rightarrow> all_digits f \<and> s = sg @ ds @ ''.'' @ f)"
proof -
  define sg where "sg = (if s \<noteq> [] \<and> hd s = CHR ''+'' then ''+'' else [])"
  define rest where "rest = drop (length sg) s"
  define ds where "ds = takeWhile is_digit rest"
  define tail where "tail = dropWhile is_digit rest"
  have s: "s = sg @ rest"
    by (cases s) (auto simp: sg_def rest_def)
  have rest: "rest = ds @ tail"
    by (simp add: ds_def tail_def)
  have dig: "list_all is_digit ds"
    by (auto simp: ds_def list_all_iff dest: set_takeWhileD)
  have sgc: "sg = [] \<or> sg = ''+''"
    by (simp add: sg_def)
  have m: "match_decimal s =
             (if ds = [] then None
              else if tail = [] then Some (sg @ ds, None)
              else if hd tail = CHR ''.'' \<and> all_digits (tl tail) then Some (sg @ ds, Some (tl tail))
              else None)"
    unfolding match_decimal_def Let_def sg_def rest_def ds_def tail_def by simp
  show ?thesis
  proof (cases "ds = []")
    case True
    with m assms show ?thesis by simp
  next
    case ne: False
    show ?thesis
    proof (cases "tail = []")
      case True
      with m assms ne have "m1 = sg @ ds" "m2 = None" by simp_all
      moreover have "s = sg @ ds" using s rest True by simp
      ultimately show ?thesis using ne dig sgc
        by (intro exI[of _ sg] exI[of _ ds]) simp
    next
      case False
      with m assms ne have c: "hd tail = CHR ''.''" "all_digits (tl tail)"
        and r: "m1 = sg @ ds" "m2 = Some (tl tail)"
        by (simp_all split: if_splits)
      from False c(1) have "tail = ''.'' @ tl tail" by (cases tail) simp_all
      with s rest have "s = sg @ ds @ ''.'' @ tl tail" by simp
      with r c ne dig sgc show ?thesis
        by (intro exI[of _ sg] exI[of _ ds]) simp
    qed
  qed
qed

lemma match_decimal_chars:
  assumes "match_decimal s = Some m" and "c \<in> set s"
  shows "is_digit c \<or> c = CHR ''+'' \<or> c = CHR ''.''"
proof -
  obtain m1 m2 where "m = (m1, m2)" by (cases m)
  with assms(1) have "match_decimal s = Some (m1, m2)" by simp
  from match_decimal_SomeD[OF this] obtain sg ds where
    sg: "sg = [] \<or> sg = ''+''" and ds: "list_all is_digit ds" and
    sh: "case m2 of None \<Rightarrow> s = sg @ ds | Some f \<Rightarrow> all_digits f \<and> s = sg @ ds @ ''.'' @ f"
    by blast
  show ?thesis
  proof (cases m2)
    case None
    with sh have "s = sg @ ds" by simp
    with assms(2) sg ds show ?thesis by (auto simp: list_all_iff)
  next
    case (Some f)
    with sh have "all_digits f" "s = sg @ ds @ ''.'' @ f" by simp_all
    with assms(2) sg ds show ?thesis by (auto simp: list_all_iff all_digits_def)
  qed
qed

lemma match_decimal_point:
  assumes "ds \<noteq> []" "list_all is_digit ds" "all_digits f"
  shows "match_decimal (ds @ ''.'' @ f) = Some (ds, Some f)"
proof -
  let ?s = "ds @ ''.'' @ f"
  have hd: "hd ?s = hd ds" using assms(1) by simp
  have "is_digit (hd ds)" using assms(1,2) by (cases ds) simp_all
  then have nplus: "hd ?s \<noteq> CHR ''+''" using hd is_digit_not_special by metis
  have nd: "\<not> is_digit CHR ''.''" by (simp add: is_digit_def)
  have tw: "takeWhile is_digit ?s = ds"
    using assms(2) nd by (intro takeWhile_append_stop) (simp_all add: list_all_iff)
  have dw: "dropWhile is_digit ?s = ''.'' @ f"
    using assms(2) nd by (intro dropWhile_append_stop) (simp_all add: list_all_iff)
  show ?thesis
    unfolding match_decimal_def Let_def using nplus tw dw assms(1,3) by simp
qed

section \<open>Decimal strings\<close>

lemma digits_point_clean:
  assumes "list_all is_digit ds1" "list_all is_digit ds2"
  shows "clean (ds1 @ ''.'' @ ds2)"
proof -
  have "\<not> is_ws CHR ''.''" by (simp add: is_ws_def)
  moreover have "\<And>c. is_digit c \<Longrightarrow> \<not> is_ws c \<and> c \<noteq> CHR ''_'' \<and> c \<noteq> CHR '',''"
    using is_digit_not_ws is_digit_not_special by blast
  ultimately show ?thesis
    using assms unfolding clean_def list_all_iff by auto
qed

lemma take_padded:
  "length f \<le> d \<Longrightarrow> take d (f @ replicate d c) = f @ replicate (d - length f) c"
  by simp

text \<open>The conversion of a normalised decimal \<open>ds1.ds2\<close> with both parts present.\<close>

lemma convert_normal:
  assumes "ds1 \<noteq> []" "list_all is_digit ds1" "all_digits ds2" "length ds2 \<le> d"
  shows "(case match_decimal (ds1 @ ''.'' @ ds2) of
        None \<Rightarrow> None
      | Some (m1, m2) \<Rightarrow>
          let intPart = strip_plus m1;
              fracPart = (case m2 of None \<Rightarrow> [] | Some f \<Rightarrow> f) in
          if length fracPart > d then None else
          let fracPadded = take d (fracPart @ replicate d CHR ''0'');
              atomic = bigint_of_digits (if intPart = [] then ''0'' else intPart) * pow10BigInt d
                       + bigint_of_digits (if fracPadded = [] then ''0'' else fracPadded)
          in Some (bigint_toString atomic))
     = Some (bigint_toString (bigint_of_digits ds1 * 10 ^ d + bigint_of_digits ds2 * 10 ^ (d - length ds2)))"
proof -
  have "is_digit (hd ds1)" using assms(1,2) by (cases ds1) simp_all
  then have "hd ds1 \<noteq> CHR ''+''" using is_digit_not_special by metis
  then have sp: "strip_plus ds1 = ds1" by (simp add: strip_plus_def)
  have ne2: "ds2 \<noteq> []" using assms(3) by (simp add: all_digits_def)
  have pad: "take d (ds2 @ replicate d CHR ''0'') = ds2 @ replicate (d - length ds2) CHR ''0''"
    using assms(4) by (rule take_padded)
  have val: "bigint_of_digits (ds2 @ replicate (d - length ds2) CHR ''0'')
               = bigint_of_digits ds2 * 10 ^ (d - length ds2)"
    by (simp add: bigint_of_digits_append bigint_of_digits_zeros)
  show ?thesis
    unfolding match_decimal_point[OF assms(1,2,3)]
    using assms(1,4) ne2 by (simp add: sp pad val pow10BigInt_eq)
qed

lemma atomic_of_decimal:
  assumes "list_all is_digit ds1" "list_all is_digit ds2" "length ds2 \<le> d" "ds2 = [] \<longrightarrow> 0 < d"
  shows "atomic_of_string (ds1 @ ''.'' @ ds2) d
           = Some (bigint_toString (bigint_of_digits ds1 * 10 ^ d
                                    + bigint_of_digits ds2 * 10 ^ (d - length ds2)))"
proof -
  let ?s = "ds1 @ ''.'' @ ds2"
  define n1 where "n1 = (if ds1 = [] then ''0'' else ds1)"
  define n2 where "n2 = (if ds2 = [] then ''0'' else ds2)"
  have tok: "first_token ?s = ?s"
    by (rule clean_first_token) (rule digits_point_clean[OF assms(1,2)])
  have nd: "\<not> is_digit CHR ''.''" by (simp add: is_digit_def)
  then have nad: "\<not> all_digits ?s" by (simp add: all_digits_def)
  have hd: "hd ?s = CHR ''.'' \<longleftrightarrow> ds1 = []"
  proof (cases ds1)
    case Nil
    then show ?thesis by simp
  next
    case (Cons a as)
    with assms(1) have "is_digit a" by simp
    then have "a \<noteq> CHR ''.''" using is_digit_not_special by metis
    with Cons show ?thesis by simp
  qed
  have last0: "last ((if ds1 = [] then ''0'' else []) @ ?s) = CHR ''.'' \<longleftrightarrow> ds2 = []"
  proof (cases "ds2 = []")
    case True
    then show ?thesis by simp
  next
    case False
    then have "is_digit (last ds2)" using assms(2) by (simp add: list_all_iff)
    then have "last ds2 \<noteq> CHR ''.''" using is_digit_not_special by metis
    with False show ?thesis by simp
  qed
  have norm: "(let s = (if hd ?s = CHR ''.'' then CHR ''0'' # ?s else ?s);
                   s = (if last s = CHR ''.'' then s @ ''0'' else s) in s) = n1 @ ''.'' @ n2"
  proof -
    have a: "(if hd ?s = CHR ''.'' then CHR ''0'' # ?s else ?s) = n1 @ ''.'' @ ds2"
      using hd by (simp add: n1_def)
    have b: "last (n1 @ ''.'' @ ds2) = CHR ''.'' \<longleftrightarrow> ds2 = []"
      using last0 by (simp add: n1_def split: if_splits)
    show ?thesis unfolding Let_def a using b by (simp add: n2_def)
  qed
  have d1: "n1 \<noteq> []" "list_all is_digit n1"
    using assms(1) by (simp_all add: n1_def is_digit_def)
  have d2: "all_digits n2" "length n2 \<le> d"
    using assms(2,3,4) by (auto simp: n2_def all_digits_def is_digit_def)
  have v1: "bigint_of_digits n1 = bigint_of_digits ds1"
    by (simp add: n1_def bigint_of_digits_def digit_val_def)
  have v2: "bigint_of_digits n2 * 10 ^ (d - length n2) = bigint_of_digits ds2 * 10 ^ (d - length ds2)"
    by (simp add: n2_def bigint_of_digits_def digit_val_def)
  have "atomic_of_string ?s d =
     (let s = (let s = (if hd ?s = CHR ''.'' then CHR ''0'' # ?s else ?s);
                   s = (if last s = CHR ''.'' then s @ ''0'' else s) in s) in
      case match_decimal s of
        None \<Rightarrow> None
      | Some (m1, m2) \<Rightarrow>
          let intPart = strip_plus m1;
              fracPart = (case m2 of None \<Rightarrow> [] | Some f \<Rightarrow> f) in
          if length fracPart > d then None else
          let fracPadded = take d (fracPart @ replicate d CHR ''0'');
              atomic = bigint_of_digits (if intPart = [] then ''0'' else intPart) * pow10BigInt d
                       + bigint_of_digits (if fracPadded = [] then ''0'' else fracPadded)
          in Some (bigint_toString atomic))"
    unfolding atomic_of_string_token[of ?s] tok using nad by (simp add: Let_def)
  also have "\<dots> = Some (bigint_toString (bigint_of_digits n1 * 10 ^ d + bigint_of_digits n2 * 10 ^ (d - length n2)))"
    unfolding norm using convert_normal[OF d1 d2] by simp
  finally show ?thesis by (simp add: v1 v2)
qed


lemma bigint_toString_no_leading_zero: "0 < n \<Longrightarrow> hd (bigint_toString n) \<noteq> CHR ''0''"
proof (induction n rule: bigint_toString.induct)
  case (1 n)
  show ?case
  proof (cases "n < 10")
    case True
    with 1(2) have "n \<in> {1,2,3,4,5,6,7,8,9}" by auto
    then show ?thesis
      by (elim insertE emptyE) (simp_all add: bigint_toString_numeral bigint_toString_1 digit_char_def)
  next
    case False
    then have "0 < n div 10" by simp
    with 1(1) False have "hd (bigint_toString (n div 10)) \<noteq> CHR ''0''" by simp
    with False show ?thesis
      by (simp add: bigint_toString.simps[of n] bigint_toString_nonempty)
  qed
qed

text \<open>
  Claim C4. For a decimal string \<open>ds1.ds2\<close> (digit strings around a point) whose
  fractional part \<open>ds2\<close> has at most 6 (USDT) or 9 (lamports) digits, the coercer returns the
  decimal string of the integer \<open>ds1 * 10^decimals + ds2 * 10^(decimals - length ds2)\<close>,
  which is the value of the string times \<open>10^decimals\<close>; the arithmetic is on unbounded
  naturals. \<open>bigint_toString\<close> prints a natural in decimal without leading zeros and
  \<open>bigint_of_digits\<close> reads it back (lemmas \<open>bigint_roundtrip\<close>,
  \<open>bigint_toString_no_leading_zero\<close>). In particular \<open>coerceUsdtAtomic "0.12" = "120000"\<close> and
  \<open>coerceSolLamports "0.01" = "10000000"\<close>.
\<close>

theorem decimal_to_atomic_exact:
  "list_all is_digit ds1 \<Longrightarrow> list_all is_digit ds2 \<Longrightarrow>
     (length ds2 \<le> 6 \<longrightarrow>
        coerceUsdtAtomic (JStr (ds1 @ ''.'' @ ds2))
          = JStr (bigint_toString (bigint_of_digits ds1 * 10 ^ 6
                                   + bigint_of_digits ds2 * 10 ^ (6 - length ds2))))
   \<and> (length ds2 \<le> 9 \<longrightarrow>
        coerceSolLamports (JStr (ds1 @ ''.'' @ ds2))
          = JStr (bigint_toString (bigint_of_digits ds1 * 10 ^ 9
                                   + bigint_of_digits ds2 * 10 ^ (9 - length ds2))))
   \<and> coerceUsdtAtomic (JStr ''0.12'') = JStr ''120000''
   \<and> coerceSolLamports (JStr ''0.01'') = JStr ''10000000''"
proof -
  assume d: "list_all is_digit ds1" "list_all is_digit ds2"
  have u: "coerceUsdtAtomic (JStr (ds1 @ ''.'' @ ds2))
          = JStr (bigint_toString (bigint_of_digits ds1 * 10 ^ 6
                                   + bigint_of_digits ds2 * 10 ^ (6 - length ds2)))"
    if "length ds2 \<le> 6"
    using atomic_of_decimal[OF d that]
    by (simp add: coerceUsdtAtomic_def decimalToAtomicString_def string_branch_def)
  have l: "coerceSolLamports (JStr (ds1 @ ''.'' @ ds2))
          = JStr (bigint_toString (bigint_of_digits ds1 * 10 ^ 9
                                   + bigint_of_digits ds2 * 10 ^ (9 - length ds2)))"
    if "length ds2 \<le> 9"
    using atomic_of_decimal[OF d that]
    by (simp add: coerceSolLamports_def decimalToAtomicString_def string_branch_def)
  have e1: "coerceUsdtAtomic (JStr ''0.12'') = JStr ''120000''"
    by (simp add: coerce_ev string_ev)
  have e2: "coerceSolLamports (JStr ''0.01'') = JStr ''10000000''"
    by (simp add: coerce_ev string_ev)
  from u l e1 e2 show ?thesis by blast
qed

theorem decimal_to_atomic_exact_witness:
  "list_all is_digit ''12'' \<and> list_all is_digit ''5'' \<and> length ''5'' \<le> (6::nat)
     \<and> coerceUsdtAtomic (JStr ''12.5'') = JStr ''12500000''
     \<and> coerceSolLamports (JStr ''12.5'') = JStr ''12500000000''"
  using decimal_to_atomic_exact[of "''12''" "''5''"]
  by (simp add: is_digit_def bigint_of_digits_def digit_val_def digit_char_def
      bigint_toString_numeral bigint_toString_0 bigint_toString_1)

section \<open>Tokens, suffixes and results\<close>




lemma atomic_of_string_Some_digits:
  assumes "atomic_of_string v d = Some r"
  shows "all_digits r"
  using assms unfolding atomic_of_string_token Let_def
  by (auto simp: all_digits_bigint_toString split: if_splits option.splits prod.splits)

lemma atomic_of_string_bad_char:
  assumes "c \<in> set (first_token v)" "\<not> is_digit c" "c \<noteq> CHR ''+''" "c \<noteq> CHR ''.''"
  shows "atomic_of_string v d = None"
proof -
  let ?s = "first_token v"
  let ?s1 = "if hd ?s = CHR ''.'' then CHR ''0'' # ?s else ?s"
  let ?s2 = "if last ?s1 = CHR ''.'' then ?s1 @ ''0'' else ?s1"
  have ne: "?s \<noteq> []" using assms(1) by auto
  have nad: "\<not> all_digits ?s" using assms(1,2) by (auto simp: all_digits_def list_all_iff)
  have "c \<in> set ?s2" using assms(1) by simp
  then have "match_decimal ?s2 = None"
    using match_decimal_chars[of ?s2 _ c] assms(2,3,4) by (cases "match_decimal ?s2") auto
  then show ?thesis
    unfolding atomic_of_string_token Let_def using ne nad by simp
qed

section \<open>Artifact stripping\<close>





section \<open>Inputs that are returned unchanged\<close>

lemma numeral_layout_digits: "all_digits s \<Longrightarrow> numeral_layout s"
proof -
  assume a: "all_digits s"
  then have "is_digit (hd s)" by (cases s) (simp_all add: all_digits_def)
  then have "hd s \<noteq> CHR ''+''" using is_digit_not_special by metis
  then have "strip_plus s = s" by (simp add: strip_plus_def)
  moreover have "dropWhile is_digit s = []"
    using a by (simp add: all_digits_def list_all_iff)
  ultimately show ?thesis by (simp add: numeral_layout_def)
qed

lemma numeral_layout_parts:
  assumes "sg = [] \<or> sg = ''+''" "ds \<noteq> []" "list_all is_digit ds"
    and "rest = [] \<or> (hd rest = CHR ''.'' \<and> list_all is_digit (tl rest))"
  shows "numeral_layout (sg @ ds @ rest)"
proof -
  have "is_digit (hd ds)" using assms(2,3) by (cases ds) simp_all
  then have "hd ds \<noteq> CHR ''+''" using is_digit_not_special by metis
  then have sp: "strip_plus (sg @ ds @ rest) = ds @ rest"
    using assms(1,2) by (auto simp: strip_plus_def)
  have nd: "\<not> is_digit CHR ''.''" by (simp add: is_digit_def)
  have "dropWhile is_digit (ds @ rest) = rest"
    using assms(3,4) nd by (intro dropWhile_append_stop) (auto simp: list_all_iff)
  with sp assms(4) show ?thesis by (simp add: numeral_layout_def)
qed

lemma match_decimal_shape:
  assumes "match_decimal s = Some m"
  shows "numeral_layout s"
proof -
  obtain m1 m2 where "m = (m1, m2)" by (cases m)
  with assms have "match_decimal s = Some (m1, m2)" by simp
  from match_decimal_SomeD[OF this] obtain sg ds where
    sg: "sg = [] \<or> sg = ''+''" and ds: "ds \<noteq> []" "list_all is_digit ds" and
    sh: "case m2 of None \<Rightarrow> s = sg @ ds | Some f \<Rightarrow> all_digits f \<and> s = sg @ ds @ ''.'' @ f"
    by blast
  show ?thesis
  proof (cases m2)
    case None
    with sh have "s = sg @ ds @ []" by simp
    moreover have "numeral_layout (sg @ ds @ [])"
      using sg ds by (intro numeral_layout_parts) simp_all
    ultimately show ?thesis by simp
  next
    case (Some f)
    with sh have f: "all_digits f" and s: "s = sg @ ds @ (''.'' @ f)" by simp_all
    have "numeral_layout (sg @ ds @ (''.'' @ f))"
      using sg ds f by (intro numeral_layout_parts) (simp_all add: all_digits_def)
    with s show ?thesis by simp
  qed
qed

lemma numeral_layout_drop_zero:
  assumes "numeral_layout (s @ ''0'')" "s \<noteq> []"
  shows "numeral_layout s"
proof -
  define r where "r = strip_plus s"
  have sp: "strip_plus (s @ ''0'') = r @ ''0''"
    using assms(2) by (simp add: strip_plus_def r_def)
  show ?thesis
  proof (cases "\<forall>x\<in>set r. is_digit x")
    case True
    then have "dropWhile is_digit r = []" by simp
    then show ?thesis by (simp add: numeral_layout_def r_def)
  next
    case False
    then obtain x where "x \<in> set r" "\<not> is_digit x" by blast
    then have dw: "dropWhile is_digit (r @ ''0'') = dropWhile is_digit r @ ''0''"
      by (rule dropWhile_append1)
    have ne: "dropWhile is_digit r \<noteq> []"
      using False by (simp add: dropWhile_eq_Nil_conv)
    from assms(1) have "hd (dropWhile is_digit r @ ''0'') = CHR ''.''
        \<and> list_all is_digit (tl (dropWhile is_digit r @ ''0''))"
      unfolding numeral_layout_def sp dw Let_def using ne by simp
    with ne have "hd (dropWhile is_digit r) = CHR ''.'' \<and> list_all is_digit (tl (dropWhile is_digit r))"
      by simp
    then show ?thesis by (simp add: numeral_layout_def r_def)
  qed
qed

lemma numeral_layout_drop_lead:
  assumes "numeral_layout (CHR ''0'' # CHR ''.'' # x)"
  shows "numeral_layout (CHR ''.'' # x)"
  using assms by (simp add: numeral_layout_def strip_plus_def is_digit_def)

lemma atomic_of_string_Some_layout:
  assumes "atomic_of_string v d = Some r"
  shows "numeral_layout (first_token v)"
proof -
  let ?s = "first_token v"
  let ?s1 = "if hd ?s = CHR ''.'' then CHR ''0'' # ?s else ?s"
  let ?s2 = "if last ?s1 = CHR ''.'' then ?s1 @ ''0'' else ?s1"
  from assms have ne: "?s \<noteq> []"
    unfolding atomic_of_string_token Let_def by (simp split: if_splits)
  show ?thesis
  proof (cases "all_digits ?s")
    case True
    then show ?thesis by (rule numeral_layout_digits)
  next
    case False
    with assms ne have "match_decimal ?s2 \<noteq> None"
      unfolding atomic_of_string_token Let_def by (auto split: option.splits)
    then obtain m where "match_decimal ?s2 = Some m" by blast
    then have s2: "numeral_layout ?s2" by (rule match_decimal_shape)
    have s1: "numeral_layout ?s1"
    proof (cases "last ?s1 = CHR ''.''")
      case True
      with s2 have "numeral_layout (?s1 @ ''0'')" by simp
      moreover have "?s1 \<noteq> []" using ne by simp
      ultimately show ?thesis by (rule numeral_layout_drop_zero)
    next
      case False
      with s2 show ?thesis by simp
    qed
    show ?thesis
    proof (cases "hd ?s = CHR ''.''")
      case True
      with ne obtain x where x: "?s = CHR ''.'' # x" by (cases ?s) simp_all
      with s1 True have "numeral_layout (CHR ''0'' # CHR ''.'' # x)" by simp
      then have "numeral_layout (CHR ''.'' # x)" by (rule numeral_layout_drop_lead)
      with x show ?thesis by simp
    next
      case False
      with s1 show ?thesis by simp
    qed
  qed
qed

lemma strip_plus_parts:
  assumes "sg = [] \<or> sg = ''+''" "ds \<noteq> []" "list_all is_digit ds"
  shows "strip_plus (sg @ ds @ rest) = ds @ rest"
proof -
  have "is_digit (hd ds)" using assms(2,3) by (cases ds) simp_all
  then have "hd ds \<noteq> CHR ''+''" using is_digit_not_special by metis
  then show ?thesis using assms(1,2) by (auto simp: strip_plus_def)
qed

lemma match_decimal_lead:
  assumes "match_decimal s = Some m"
  shows "strip_plus s \<noteq> [] \<and> is_digit (hd (strip_plus s))"
proof -
  obtain m1 m2 where "m = (m1, m2)" by (cases m)
  with assms have "match_decimal s = Some (m1, m2)" by simp
  from match_decimal_SomeD[OF this] obtain sg ds where
    sg: "sg = [] \<or> sg = ''+''" and ds: "ds \<noteq> []" "list_all is_digit ds" and
    sh: "case m2 of None \<Rightarrow> s = sg @ ds | Some f \<Rightarrow> all_digits f \<and> s = sg @ ds @ ''.'' @ f"
    by blast
  from sh obtain rest where s: "s = sg @ ds @ rest"
    by (cases m2) auto
  have "is_digit (hd ds)" using ds by (cases ds) simp_all
  then show ?thesis
    unfolding s strip_plus_parts[OF sg ds] using ds(1) by simp
qed

lemma atomic_of_string_Some_lead:
  assumes "atomic_of_string v d = Some r"
  shows "first_token v \<noteq> []
     \<and> (hd (first_token v) = CHR ''.''
        \<or> (strip_plus (first_token v) \<noteq> [] \<and> is_digit (hd (strip_plus (first_token v)))))"
proof -
  let ?s = "first_token v"
  let ?s1 = "if hd ?s = CHR ''.'' then CHR ''0'' # ?s else ?s"
  let ?s2 = "if last ?s1 = CHR ''.'' then ?s1 @ ''0'' else ?s1"
  from assms have ne: "?s \<noteq> []"
    unfolding atomic_of_string_token Let_def by (simp split: if_splits)
  show ?thesis
  proof (cases "hd ?s = CHR ''.''")
    case True
    with ne show ?thesis by simp
  next
    case nodot: False
    show ?thesis
    proof (cases "all_digits ?s")
      case True
      then have "is_digit (hd ?s)" by (cases ?s) (simp_all add: all_digits_def)
      moreover from this have "hd ?s \<noteq> CHR ''+''" using is_digit_not_special by metis
      then have "strip_plus ?s = ?s" by (simp add: strip_plus_def)
      ultimately show ?thesis using ne by simp
    next
      case False
      with assms ne have "match_decimal ?s2 \<noteq> None"
        unfolding atomic_of_string_token Let_def by (auto split: option.splits)
      then obtain m where "match_decimal ?s2 = Some m" by blast
      from match_decimal_lead[OF this]
      have l2: "strip_plus ?s2 \<noteq> [] \<and> is_digit (hd (strip_plus ?s2))" .
      have "strip_plus ?s \<noteq> [] \<and> is_digit (hd (strip_plus ?s))"
      proof (cases "last ?s = CHR ''.''")
        case False
        with nodot l2 show ?thesis by simp
      next
        case True
        with nodot have s2: "?s2 = ?s @ ''0''" by simp
        have sp: "strip_plus (?s @ ''0'') = strip_plus ?s @ ''0''"
          using ne by (simp add: strip_plus_def)
        have rne: "strip_plus ?s \<noteq> []"
        proof
          assume e: "strip_plus ?s = []"
          with ne have "?s = ''+''"
            by (cases ?s) (auto simp: strip_plus_def split: if_splits)
          with True show False by simp
        qed
        from l2 have "is_digit (hd (strip_plus ?s @ ''0''))"
          unfolding s2 sp by simp
        with rne show ?thesis by simp
      qed
      with ne show ?thesis by simp
    qed
  qed
qed

lemma atomic_of_string_Some_shape:
  assumes "atomic_of_string v d = Some r"
  shows "numeral_shape (first_token v)"
  using atomic_of_string_Some_layout[OF assms] atomic_of_string_Some_lead[OF assms]
  by (simp add: numeral_shape_def)

lemma atomic_of_string_long_fraction:
  assumes "first_token v = sg @ ds1 @ ''.'' @ ds2" "sg = [] \<or> sg = ''+''"
    "list_all is_digit ds1" "list_all is_digit ds2" "d < length ds2"
  shows "atomic_of_string v d = None"
proof (rule ccontr)
  assume "atomic_of_string v d \<noteq> None"
  then obtain r where some: "atomic_of_string v d = Some r" by blast
  let ?s = "first_token v"
  let ?s1 = "if hd ?s = CHR ''.'' then CHR ''0'' # ?s else ?s"
  let ?s2 = "if last ?s1 = CHR ''.'' then ?s1 @ ''0'' else ?s1"
  have ne2: "ds2 \<noteq> []" using assms(5) by auto
  have nd: "\<not> is_digit CHR ''.''" by (simp add: is_digit_def)
  have nad: "\<not> all_digits ?s" using assms(1) nd by (simp add: all_digits_def)
  have "is_digit (last ds2)" using ne2 assms(4) by (simp add: list_all_iff)
  then have "last ds2 \<noteq> CHR ''.''" using is_digit_not_special by metis
  then have l: "last ?s1 \<noteq> CHR ''.''" using assms(1) ne2 by simp
  from some nad l obtain m1 m2 where m: "match_decimal ?s1 = Some (m1, m2)"
    and len: "\<not> d < length (case m2 of None \<Rightarrow> [] | Some f \<Rightarrow> f)"
    unfolding atomic_of_string_token Let_def
    by (auto split: if_splits option.splits prod.splits)
  from match_decimal_SomeD[OF m] obtain sg' ds' where
    sh: "case m2 of None \<Rightarrow> ?s1 = sg' @ ds' | Some f \<Rightarrow> all_digits f \<and> ?s1 = sg' @ ds' @ ''.'' @ f"
    and sg': "sg' = [] \<or> sg' = ''+''" and ds': "list_all is_digit ds'"
    by blast
  have dot: "CHR ''.'' \<in> set ?s1" using assms(1) by simp
  show False
  proof (cases m2)
    case None
    with sh have "?s1 = sg' @ ds'" by simp
    with dot sg' ds' nd show False by (auto simp: list_all_iff)
  next
    case (Some f)
    with sh have f: "all_digits f" and eq: "?s1 = sg' @ ds' @ ''.'' @ f" by simp_all
    have "f = ds2"
    proof -
      have "rev ?s1 = rev f @ CHR ''.'' # rev (sg' @ ds')" using eq by simp
      then have a: "takeWhile is_digit (rev ?s1) = rev f"
        using f nd by (simp add: all_digits_def list_all_iff takeWhile_append_stop[where b = "CHR ''.'' # _"])
      have "rev ?s1 = rev ds2 @ CHR ''.'' # rev ((if hd ?s = CHR ''.'' then ''0'' else []) @ sg @ ds1)"
        using assms(1) by simp
      then have b: "takeWhile is_digit (rev ?s1) = rev ds2"
        using assms(4) nd by (simp add: list_all_iff takeWhile_append_stop[where b = "CHR ''.'' # _"])
      from a b show ?thesis by simp
    qed
    with len Some assms(5) show False by simp
  qed
qed

lemma minus_not_shape:
  assumes "s \<noteq> []" "hd s = CHR ''-''"
  shows "\<not> numeral_shape s"
proof -
  from assms obtain x where s: "s = CHR ''-'' # x" by (cases s) simp_all
  show ?thesis
    unfolding s by (simp add: numeral_shape_def numeral_layout_def strip_plus_def is_digit_def)
qed

lemma string_branch_None: "atomic_of_string s d = None \<Longrightarrow> string_branch s d = JStr s"
  by (simp add: string_branch_def)

lemma not_shape_unchanged:
  "\<not> numeral_shape (first_token s) \<Longrightarrow> decimalToAtomicString (JStr s) d = JStr s"
proof -
  assume a: "\<not> numeral_shape (first_token s)"
  have "atomic_of_string s d = None"
  proof (cases "atomic_of_string s d")
    case None
    then show ?thesis .
  next
    case (Some r)
    from atomic_of_string_Some_shape[OF this] a show ?thesis by simp
  qed
  then show ?thesis by (simp add: decimalToAtomicString_def string_branch_None)
qed

text \<open>
  Claim C6, as the code has it. A string is returned unchanged when its token is not
  shaped like a nonnegative decimal numeral (for instance when it is empty, starts with a
  minus sign or holds another character) or has more fractional digits than \<open>decimals\<close>;
  a number that is not finite and every value that is neither a number nor a string are
  returned unchanged as well. A finite number that is not a nonnegative integer is
  printed with \<^verbatim>\<open>toFixed(decimals)\<close> first, and the result is that of the printed string.
  The coercers are the function at 6 and 9 decimals, and
  \<open>coerceUsdtAtomic "not-a-number" = "not-a-number"\<close>.
\<close>

theorem unparseable_input_unchanged:
  "(\<not> numeral_shape (first_token s) \<longrightarrow> decimalToAtomicString (JStr s) d = JStr s)
   \<and> (first_token s \<noteq> [] \<and> hd (first_token s) = CHR ''-''
        \<longrightarrow> decimalToAtomicString (JStr s) d = JStr s)
   \<and> (first_token s = sg @ ds1 @ ''.'' @ ds2 \<and> (sg = [] \<or> sg = ''+'')
        \<and> list_all is_digit ds1 \<and> list_all is_digit ds2 \<and> d < length ds2
        \<longrightarrow> decimalToAtomicString (JStr s) d = JStr s)
   \<and> (\<not> js_isFinite x \<longrightarrow> decimalToAtomicString (JNum x) d = JNum x)
   \<and> (js_isFinite x \<and> \<not> (js_isInteger x \<and> js_nonneg x)
        \<longrightarrow> decimalToAtomicString (JNum x) d = decimalToAtomicString (JStr (js_toFixed x d)) d)
   \<and> (js_typeof v \<noteq> ''number'' \<and> js_typeof v \<noteq> ''string'' \<longrightarrow> decimalToAtomicString v d = v)
   \<and> coerceUsdtAtomic v = decimalToAtomicString v 6
   \<and> coerceSolLamports v = decimalToAtomicString v 9
   \<and> coerceUsdtAtomic (JStr ''not-a-number'') = JStr ''not-a-number''"
proof -
  have c1: "\<not> numeral_shape (first_token s) \<longrightarrow> decimalToAtomicString (JStr s) d = JStr s"
    using not_shape_unchanged by blast
  have c2: "first_token s \<noteq> [] \<and> hd (first_token s) = CHR ''-''
        \<longrightarrow> decimalToAtomicString (JStr s) d = JStr s"
    using not_shape_unchanged minus_not_shape by blast
  have c3: "first_token s = sg @ ds1 @ ''.'' @ ds2 \<and> (sg = [] \<or> sg = ''+'')
        \<and> list_all is_digit ds1 \<and> list_all is_digit ds2 \<and> d < length ds2
        \<longrightarrow> decimalToAtomicString (JStr s) d = JStr s"
    using atomic_of_string_long_fraction[of s sg ds1 ds2 d]
    by (simp add: decimalToAtomicString_def string_branch_None)
  have c4: "\<not> js_isFinite x \<longrightarrow> decimalToAtomicString (JNum x) d = JNum x"
    by (simp add: decimalToAtomicString_def)
  have c5: "js_isFinite x \<and> \<not> (js_isInteger x \<and> js_nonneg x)
        \<longrightarrow> decimalToAtomicString (JNum x) d = decimalToAtomicString (JStr (js_toFixed x d)) d"
    by (simp add: decimalToAtomicString_def)
  have c6: "js_typeof v \<noteq> ''number'' \<and> js_typeof v \<noteq> ''string'' \<longrightarrow> decimalToAtomicString v d = v"
    by (cases v) (simp_all add: decimalToAtomicString_def js_typeof_def)
  have "CHR ''n'' \<in> set (first_token ''not-a-number'')"
    by (simp add: first_token_def string_ev)
  then have "atomic_of_string ''not-a-number'' 6 = None"
    by (rule atomic_of_string_bad_char) (simp_all add: is_digit_def)
  then have c7: "coerceUsdtAtomic (JStr ''not-a-number'') = JStr ''not-a-number''"
    by (simp add: coerceUsdtAtomic_def decimalToAtomicString_def string_branch_None)
  from c1 c2 c3 c4 c5 c6 c7 show ?thesis
    by (simp only: coerceUsdtAtomic_def coerceSolLamports_def simp_thms)
qed

theorem unparseable_input_unchanged_witness:
  "\<not> numeral_shape (first_token ''-1.5 usdt'') \<and> first_token ''-1.5 usdt'' \<noteq> []
   \<and> hd (first_token ''-1.5 usdt'') = CHR ''-''
   \<and> decimalToAtomicString (JStr ''-1.5 usdt'') 6 = JStr ''-1.5 usdt''
   \<and> first_token ''0.1234567'' = [] @ ''0'' @ ''.'' @ ''1234567''
   \<and> list_all is_digit ''0'' \<and> list_all is_digit ''1234567'' \<and> 6 < length ''1234567''
   \<and> decimalToAtomicString (JStr ''0.1234567'') 6 = JStr ''0.1234567''
   \<and> \<not> js_isFinite NaN \<and> decimalToAtomicString (JNum NaN) 6 = JNum NaN
   \<and> js_typeof (JBool True) \<noteq> ''number'' \<and> js_typeof (JBool True) \<noteq> ''string''
   \<and> decimalToAtomicString (JBool True) 6 = JBool True"
proof -
  have t1: "first_token ''-1.5 usdt'' = ''-1.5''"
    by (simp add: first_token_def string_ev)
  have t2: "first_token ''0.1234567'' = ''0.1234567''"
    by (simp add: first_token_def string_ev)
  have n1: "\<not> numeral_shape ''-1.5''"
    by (simp add: numeral_shape_def numeral_layout_def strip_plus_def is_digit_def)
  from unparseable_input_unchanged[of "''-1.5 usdt''" 6 "[]" "[]" "[]" NaN "JBool True"]
    unparseable_input_unchanged[of "''0.1234567''" 6 "[]" "''0''" "''1234567''" NaN "JBool True"]
  show ?thesis
    by (simp add: t1 t2 n1 is_digit_def js_isFinite_def js_typeof_def)
qed

text \<open>
  Claim C6 as stated covers number inputs too, and fails there: the negative number
  \<open>-0.5\<close> is not returned unchanged, the coercer returns the string \<open>"-0.500000"\<close>.
\<close>

theorem negative_number_not_unchanged:
  "\<not> js_nonneg (Dyadic (- 1) 1)
   \<and> coerceUsdtAtomic (JNum (Dyadic (- 1) 1)) = JStr ''-0.500000''
   \<and> coerceUsdtAtomic (JNum (Dyadic (- 1) 1)) \<noteq> JNum (Dyadic (- 1) 1)"
proof -
  have f: "js_toFixed (Dyadic (- 1) 1) 6 = ''-0.500000''"
    by (simp add: js_toFixed_def fixed_digits_def string_ev)
  have "CHR ''-'' \<in> set (first_token ''-0.500000'')"
    by (simp add: first_token_def string_ev)
  then have "atomic_of_string ''-0.500000'' 6 = None"
    by (rule atomic_of_string_bad_char) (simp_all add: is_digit_def)
  with f show ?thesis
    by (simp add: coerceUsdtAtomic_def decimalToAtomicString_def string_branch_None
        js_isFinite_def js_isInteger_def js_nonneg_def)
qed

section \<open>Idempotence of the coercers\<close>

lemma string_branch_cases:
  "string_branch s d = JStr s \<or> pure_digit_string (string_branch s d)"
proof (cases "atomic_of_string s d")
  case None
  then show ?thesis by (simp add: string_branch_def)
next
  case (Some r)
  from atomic_of_string_Some_digits[OF this] Some show ?thesis
    by (simp add: string_branch_def pure_digit_string_def)
qed

lemma string_branch_digits: "all_digits r \<Longrightarrow> string_branch r d = JStr r"
  by (simp add: string_branch_def atomic_of_string_digits)

lemma string_branch_fixed:
  assumes "string_branch s d = JStr s'"
  shows "string_branch s' d = JStr s'"
proof (cases "atomic_of_string s d")
  case None
  with assms have "s' = s" by (simp add: string_branch_def)
  with assms show ?thesis by simp
next
  case (Some r)
  with assms have "s' = r" by (simp add: string_branch_def)
  with atomic_of_string_Some_digits[OF Some] show ?thesis
    by (simp add: string_branch_digits)
qed

lemma string_branch_is_string: "\<exists>s'. string_branch s d = JStr s'"
  by (simp add: string_branch_def split: option.splits)

lemma large_toString_fixed: "string_branch (large_toString s z) d = JStr (large_toString s z)"
proof (cases "length (bigint_toString s) + z \<le> 21")
  case True
  then have "large_toString s z = bigint_toString s @ replicate z CHR ''0''"
    by (simp add: large_toString_def Let_def)
  moreover have "is_digit CHR ''0''" by (simp add: is_digit_def)
  then have "all_digits (bigint_toString s @ replicate z CHR ''0'')"
    using all_digits_bigint_toString[of s] by (auto simp: all_digits_def list_all_iff)
  ultimately show ?thesis by (simp add: string_branch_digits)
next
  case False
  let ?ds = "bigint_toString s"
  let ?E = "large_toString s z"
  let ?m = "if length ?ds = 1 then ?ds else hd ?ds # CHR ''.'' # tl ?ds"
  let ?x = "bigint_toString (length ?ds + z - 1)"
  have E: "?E = ?m @ ''e+'' @ ?x"
    using False by (simp add: large_toString_def Let_def)
  have ok: "\<not> is_ws c \<and> c \<noteq> CHR ''_'' \<and> c \<noteq> CHR '',''" if "is_digit c \<or> c = CHR ''.'' \<or> c = CHR ''e'' \<or> c = CHR ''+''" for c
    using that is_digit_not_ws is_digit_not_special by (auto simp: is_ws_def)
  have dm: "\<forall>c\<in>set ?m. is_digit c \<or> c = CHR ''.''"
  proof -
    have "\<forall>c\<in>set ?ds. is_digit c" using bigint_toString_digits[of s] by (simp add: list_all_iff)
    moreover have "set ?m \<subseteq> set ?ds \<union> {CHR ''.''}"
      using bigint_toString_nonempty[of s] by (cases ?ds) auto
    ultimately show ?thesis by blast
  qed
  have dx: "\<forall>c\<in>set ?x. is_digit c"
    using bigint_toString_digits[of "length ?ds + z - 1"] by (simp add: list_all_iff)
  have "\<forall>c\<in>set ?E. is_digit c \<or> c = CHR ''.'' \<or> c = CHR ''e'' \<or> c = CHR ''+''"
    unfolding E using dm dx by auto
  then have "clean ?E"
    unfolding clean_def list_all_iff using ok by blast
  then have "first_token ?E = ?E" by (rule clean_first_token)
  moreover have "CHR ''e'' \<in> set ?E" unfolding E by simp
  ultimately have "CHR ''e'' \<in> set (first_token ?E)" by simp
  then have "atomic_of_string ?E d = None"
    by (rule atomic_of_string_bad_char) (simp_all add: is_digit_def)
  then show ?thesis by (rule string_branch_None)
qed

lemma js_String_int_fixed:
  assumes "js_isFinite x"
  shows "string_branch (js_String_int x) d = JStr (js_String_int x)"
proof (cases x)
  case (Dyadic n k)
  then show ?thesis
    by (simp add: js_String_int_def string_branch_digits all_digits_bigint_toString)
next
  case (Large neg m s z)
  then show ?thesis by (simp add: js_String_int_def large_toString_fixed)
qed (use assms in \<open>simp_all add: js_isFinite_def\<close>)

lemma decimalToAtomicString_idem:
  "decimalToAtomicString (decimalToAtomicString v d) d = decimalToAtomicString v d"
proof (cases v)
  case (JNum x)
  show ?thesis
  proof (cases "js_isFinite x")
    case False
    with JNum show ?thesis by (simp add: decimalToAtomicString_def)
  next
    case fin: True
    show ?thesis
    proof (cases "js_isInteger x \<and> js_nonneg x")
      case True
      with JNum fin show ?thesis
        by (simp add: decimalToAtomicString_def js_String_int_fixed)
    next
      case False
      obtain s' where s': "string_branch (js_toFixed x d) d = JStr s'"
        using string_branch_is_string by blast
      from False have nf: "\<not> (js_isInteger x \<and> js_nonneg x)" .
      from string_branch_fixed[OF s'] s' JNum fin show ?thesis
        by (simp add: decimalToAtomicString_def nf)
    qed
  qed
next
  case (JStr s)
  obtain s' where s': "string_branch s d = JStr s'"
    using string_branch_is_string by blast
  from string_branch_fixed[OF this] s' JStr show ?thesis
    by (simp add: decimalToAtomicString_def)
qed (simp_all add: decimalToAtomicString_def)

lemma decimalToAtomicString_output:
  assumes "js_typeof v \<noteq> ''number''"
  shows "decimalToAtomicString v d = v \<or> pure_digit_string (decimalToAtomicString v d)"
proof (cases v)
  case (JStr s)
  with string_branch_cases[of s d] show ?thesis by (simp add: decimalToAtomicString_def)
next
  case (JNum x)
  with assms show ?thesis by (simp add: js_typeof_def)
qed (simp_all add: decimalToAtomicString_def)

text \<open>
  Claim C9, as the code has it. Both coercers are idempotent on every value. For every
  input that is not a number the output is the input itself or a string of digits, and
  strings of digits are fixed points. (For a number the output can be another string,
  which the coercer then leaves as it is.)
\<close>

theorem coercers_idempotent:
  "coerceUsdtAtomic (coerceUsdtAtomic v) = coerceUsdtAtomic v
   \<and> coerceSolLamports (coerceSolLamports v) = coerceSolLamports v
   \<and> (js_typeof v \<noteq> ''number'' \<longrightarrow>
        (coerceUsdtAtomic v = v \<or> pure_digit_string (coerceUsdtAtomic v))
        \<and> (coerceSolLamports v = v \<or> pure_digit_string (coerceSolLamports v)))
   \<and> (pure_digit_string v \<longrightarrow> coerceUsdtAtomic v = v \<and> coerceSolLamports v = v)"
proof -
  have fp: "decimalToAtomicString v d = v" if "pure_digit_string v" for d
    using that by (cases v) (simp_all add: pure_digit_string_def decimalToAtomicString_def string_branch_digits)
  show ?thesis
    unfolding coerceUsdtAtomic_def coerceSolLamports_def
    using decimalToAtomicString_idem decimalToAtomicString_output fp by blast
qed

theorem coercers_idempotent_witness:
  "js_typeof (JStr ''1.5 usdt'') \<noteq> ''number''
   \<and> coerceUsdtAtomic (JStr ''1.5 usdt'') = JStr ''1500000''
   \<and> coerceUsdtAtomic (coerceUsdtAtomic (JStr ''1.5 usdt'')) = coerceUsdtAtomic (JStr ''1.5 usdt'')
   \<and> pure_digit_string (coerceUsdtAtomic (JStr ''1.5 usdt''))
   \<and> pure_digit_string (JStr ''1500000'')
   \<and> coerceSolLamports (JStr ''1500000'') = JStr ''1500000''"
proof -
  have e: "coerceUsdtAtomic (JStr ''1.5 usdt'') = JStr ''1500000''"
    by (simp add: coerce_ev string_ev)
  have p: "pure_digit_string (JStr ''1500000'')"
    by (simp add: pure_digit_string_def all_digits_def is_digit_def)
  from coercers_idempotent[of "JStr ''1.5 usdt''"] coercers_idempotent[of "JStr ''1500000''"] e p
  show ?thesis by (simp add: js_typeof_def)
qed

text \<open>
  Claim C9 as stated says that the output is always the input itself or a string of
  digits. For the number \<open>-0.5\<close> it is neither: \<open>coerceSolLamports\<close> returns the string
  \<open>"-0.500000000"\<close>.
\<close>

theorem output_neither_input_nor_digits:
  "coerceSolLamports (JNum (Dyadic (- 1) 1)) = JStr ''-0.500000000''
   \<and> coerceSolLamports (JNum (Dyadic (- 1) 1)) \<noteq> JNum (Dyadic (- 1) 1)
   \<and> \<not> pure_digit_string (coerceSolLamports (JNum (Dyadic (- 1) 1)))"
proof -
  have f: "js_toFixed (Dyadic (- 1) 1) 9 = ''-0.500000000''"
    by (simp add: js_toFixed_def fixed_digits_def string_ev)
  have "CHR ''-'' \<in> set (first_token ''-0.500000000'')"
    by (simp add: first_token_def string_ev)
  then have "atomic_of_string ''-0.500000000'' 9 = None"
    by (rule atomic_of_string_bad_char) (simp_all add: is_digit_def)
  with f show ?thesis
    by (simp add: coerceSolLamports_def decimalToAtomicString_def string_branch_None
        js_isFinite_def js_isInteger_def js_nonneg_def pure_digit_string_def all_digits_def
        is_digit_def)
qed

section \<open>Scope of \<^verbatim>\<open>repairToolArguments\<close>\<close>

lemma js_get_update: "js_get (AList.update k v obj) k' = (if k' = k then v else js_get obj k')"
  by (simp add: js_get_def update_conv')

lemma js_in_update: "js_in k' (AList.update k v obj) \<longleftrightarrow> k' = k \<or> js_in k' obj"
  by (simp add: js_in_def update_conv')

lemma js_get_delete: "js_get (AList.delete k obj) k' = (if k' = k then JUndefined else js_get obj k')"
  by (simp add: js_get_def delete_conv')

lemma js_in_delete: "js_in k' (AList.delete k obj) \<longleftrightarrow> k' \<noteq> k \<and> js_in k' obj"
  by (simp add: js_in_def delete_conv')

lemma update_present_keys: "js_in k obj \<Longrightarrow> map fst (AList.update k v obj) = map fst obj"
  by (auto simp: js_in_def update_keys map_of_eq_None_iff)

text \<open>
  Claim C10. Outside the six tools it repairs, and for any \<open>args\<close> that is not a plain
  object, \<open>repairToolArguments\<close> returns \<open>args\<close>. For \<^verbatim>\<open>intercomswap_rfq_post\<close>,
  \<^verbatim>\<open>intercomswap_quote_post\<close> and \<^verbatim>\<open>intercomswap_terms_post\<close> every field other than
  \<^verbatim>\<open>usdt_amount\<close> keeps its value, and the keys and their order are those of \<open>args\<close>.
\<close>

theorem repair_identity_outside_scope:
  "(toolName \<notin> {''intercomswap_offer_post'', ''intercomswap_rfq_post'', ''intercomswap_quote_post'',
                  ''intercomswap_terms_post'', ''intercomswap_sol_airdrop'',
                  ''intercomswap_sol_transfer_sol''} \<or> \<not> isObject args
      \<longrightarrow> repairToolArguments toolName args = args)
   \<and> (toolName \<in> {''intercomswap_rfq_post'', ''intercomswap_quote_post'', ''intercomswap_terms_post''}
      \<longrightarrow> (k \<noteq> ''usdt_amount'' \<longrightarrow>
             map_of (obj_props (repairToolArguments toolName args)) k = map_of (obj_props args) k)
          \<and> map fst (obj_props (repairToolArguments toolName args)) = map fst (obj_props args)
          \<and> isObject (repairToolArguments toolName args) = isObject args)"
proof -
  have a: "repairToolArguments toolName args = args"
    if "toolName \<notin> {''intercomswap_offer_post'', ''intercomswap_rfq_post'', ''intercomswap_quote_post'',
                  ''intercomswap_terms_post'', ''intercomswap_sol_airdrop'',
                  ''intercomswap_sol_transfer_sol''} \<or> \<not> isObject args"
    using that unfolding repairToolArguments_def by auto
  have b: "(k \<noteq> ''usdt_amount'' \<longrightarrow>
             map_of (obj_props (repairToolArguments toolName args)) k = map_of (obj_props args) k)
          \<and> map fst (obj_props (repairToolArguments toolName args)) = map fst (obj_props args)
          \<and> isObject (repairToolArguments toolName args) = isObject args"
    if t: "toolName \<in> {''intercomswap_rfq_post'', ''intercomswap_quote_post'', ''intercomswap_terms_post''}"
  proof (cases "isObject args")
    case False
    then show ?thesis by (simp add: repairToolArguments_def)
  next
    case True
    from t have ne: "toolName \<noteq> ''intercomswap_offer_post''" by auto
    have r: "repairToolArguments toolName args =
        JObj (if js_in ''usdt_amount'' (obj_props args)
              then AList.update ''usdt_amount'' (coerceUsdtAtomic (js_get (obj_props args) ''usdt_amount'')) (obj_props args)
              else obj_props args)"
      using True t ne unfolding repairToolArguments_def Let_def by auto
    show ?thesis
      unfolding r using True
      by (simp add: obj_props_def isObject_def update_conv' update_present_keys)
  qed
  from a b show ?thesis by blast
qed

theorem repair_identity_outside_scope_witness:
  "''intercomswap_sol_balance'' \<notin> {''intercomswap_offer_post'', ''intercomswap_rfq_post'',
        ''intercomswap_quote_post'', ''intercomswap_terms_post'', ''intercomswap_sol_airdrop'',
        ''intercomswap_sol_transfer_sol''}
   \<and> repairToolArguments ''intercomswap_sol_balance'' (JObj [(''usdt_amount'', JStr ''0.12'')])
        = JObj [(''usdt_amount'', JStr ''0.12'')]
   \<and> ''intercomswap_rfq_post'' \<in> {''intercomswap_rfq_post'', ''intercomswap_quote_post'',
        ''intercomswap_terms_post''}
   \<and> ''btc_sats'' \<noteq> ''usdt_amount''
   \<and> map_of (obj_props (repairToolArguments ''intercomswap_rfq_post''
         (JObj [(''btc_sats'', JNum (Dyadic 1000 0)), (''usdt_amount'', JStr ''0.12'')]))) ''btc_sats''
        = Some (JNum (Dyadic 1000 0))"
  using repair_identity_outside_scope[of "''intercomswap_sol_balance''"
      "JObj [(''usdt_amount'', JStr ''0.12'')]" "''btc_sats''"]
    repair_identity_outside_scope[of "''intercomswap_rfq_post''"
      "JObj [(''btc_sats'', JNum (Dyadic 1000 0)), (''usdt_amount'', JStr ''0.12'')]" "''btc_sats''"]
  by (simp add: obj_props_def)

section \<open>The flattening repair\<close>

lemma foldl_delete_map_of:
  "map_of (foldl (\<lambda>obj k. AList.delete k obj) out ks) k
     = (if k \<in> set ks then None else map_of out k)"
  by (induction ks arbitrary: out) (simp_all add: delete_conv')

lemma foldl_update_map_of:
  "map_of (foldl (\<lambda>obj k. AList.update k (f k) obj) acc ks) k
     = (if k \<in> set ks then Some (f k) else map_of acc k)"
  by (induction ks arbitrary: acc) (simp_all add: update_conv')

lemma foldl_merge_map_of:
  "map_of (foldl (\<lambda>m k. if \<not> js_in k m then AList.update k (f k) m else m) m0 ks) k
     = (case map_of m0 k of Some v \<Rightarrow> Some v
        | None \<Rightarrow> if k \<in> set ks then Some (f k) else None)"
proof (induction ks arbitrary: m0)
  case Nil
  then show ?case by (simp split: option.splits)
next
  case (Cons a ks)
  define step where "step = (if \<not> js_in a m0 then AList.update a (f a) m0 else m0)"
  have st: "map_of step k = (if map_of m0 a = None \<and> k = a then Some (f a) else map_of m0 k)"
    by (simp add: step_def js_in_def update_conv')
  have e: "foldl (\<lambda>m k. if \<not> js_in k m then AList.update k (f k) m else m) m0 (a # ks)
          = foldl (\<lambda>m k. if \<not> js_in k m then AList.update k (f k) m else m) step ks"
    by (simp add: step_def)
  have "map_of (foldl (\<lambda>m k. if \<not> js_in k m then AList.update k (f k) m else m) step ks) k
          = (case map_of step k of Some v \<Rightarrow> Some v
             | None \<Rightarrow> if k \<in> set ks then Some (f k) else None)"
    by (rule Cons.IH)
  then show ?case
    unfolding e st by (auto split: option.splits)
qed

lemma repair_channel_other:
  assumes "k \<noteq> ''channel''" "k \<noteq> ''channels''"
  shows "map_of (repair_channel out) k = map_of out k"
  using assms unfolding repair_channel_def
  by (simp add: update_conv' delete_conv' split: jsval.splits)

lemma offerKeys_not_channel:
  "k \<in> set offerKeys \<Longrightarrow> k \<noteq> ''channel'' \<and> k \<noteq> ''channels'' \<and> k \<noteq> ''offers''"
  by (auto simp: offerKeys_def)

lemma repair_channel_offer_key:
  "k \<in> set offerKeys \<or> k = ''offers'' \<Longrightarrow> map_of (repair_channel out) k = map_of out k"
  using offerKeys_not_channel[of k] by (auto intro: repair_channel_other)

lemma repair_channel_usable: "usable_first_offer (repair_channel ps) = usable_first_offer ps"
  and repair_channel_offers: "offers_of (repair_channel ps) = offers_of ps"
  and repair_channel_first: "first_offer (repair_channel ps) = first_offer ps"
proof -
  have "js_get (repair_channel ps) ''offers'' = js_get ps ''offers''"
    by (simp add: js_get_def repair_channel_offer_key)
  then show "usable_first_offer (repair_channel ps) = usable_first_offer ps"
    and "offers_of (repair_channel ps) = offers_of ps"
    and "first_offer (repair_channel ps) = first_offer ps"
    by (simp_all add: usable_first_offer_def offers_of_def first_offer_def)
qed

text \<open>The first offer that the flattening step builds, as a map.\<close>

lemma flatten_offers_result:
  assumes "k0 \<in> set offerKeys" "js_in k0 out"
  shows "\<exists>first. js_get (flatten_offers out) ''offers''
             = JArr (JObj first # (if usable_first_offer out then drop 1 (offers_of out) else []))
         \<and> (\<forall>k. map_of first k =
               (case (if usable_first_offer out then map_of (first_offer out) k else None) of
                  Some v \<Rightarrow> Some v
                | None \<Rightarrow> if k \<in> set offerKeys \<and> js_in k out then Some (js_get out k) else None))
         \<and> (\<forall>k\<in>set offerKeys. map_of (flatten_offers out) k = None)"
proof -
  define fl where "fl = filter (\<lambda>k. js_in k out) offerKeys"
  have fl_set: "k \<in> set fl \<longleftrightarrow> k \<in> set offerKeys \<and> js_in k out" for k
    by (simp add: fl_def)
  from assms have ne: "0 < length fl"
    using fl_set[of k0] by (cases fl) simp_all
  define obj where "obj = foldl (\<lambda>obj k. AList.update k (js_get out k) obj) [] fl"
  define merged where "merged = foldl (\<lambda>m k. if \<not> js_in k m then AList.update k (js_get out k) m else m)
                                (first_offer out) fl"
  define first where "first = (if usable_first_offer out then merged else obj)"
  define out1 where "out1 = AList.update ''offers''
      (JArr (JObj first # (if usable_first_offer out then drop 1 (offers_of out) else []))) out"
  have fo: "flatten_offers out = foldl (\<lambda>obj k. AList.delete k obj) out1 fl"
    unfolding flatten_offers_def Let_def fl_def[symmetric]
    using ne
    by (simp add: out1_def first_def obj_def merged_def usable_first_offer_def offers_of_def
        first_offer_def)
  have nofl: "''offers'' \<notin> set fl"
    using fl_set[of "''offers''"] offerKeys_not_channel[of "''offers''"] by blast
  have get: "js_get (flatten_offers out) ''offers''
             = JArr (JObj first # (if usable_first_offer out then drop 1 (offers_of out) else []))"
    unfolding fo js_get_def foldl_delete_map_of using nofl
    by (simp add: out1_def update_conv')
  have mf: "map_of first k =
               (case (if usable_first_offer out then map_of (first_offer out) k else None) of
                  Some v \<Rightarrow> Some v
                | None \<Rightarrow> if k \<in> set offerKeys \<and> js_in k out then Some (js_get out k) else None)" for k
    unfolding first_def obj_def merged_def
    by (auto simp: foldl_update_map_of foldl_merge_map_of fl_set split: option.splits)
  have del: "map_of (flatten_offers out) k = None" if "k \<in> set offerKeys" for k
  proof (cases "k \<in> set fl")
    case True
    then show ?thesis unfolding fo foldl_delete_map_of by simp
  next
    case False
    with that have "map_of out k = None" using fl_set[of k] by (simp add: js_in_def)
    moreover have "k \<noteq> ''offers''" using that offerKeys_not_channel by blast
    ultimately show ?thesis
      unfolding fo foldl_delete_map_of using False by (simp add: out1_def update_conv')
  qed
  from get mf del show ?thesis by blast
qed

lemma coerce_offers_result:
  assumes "js_get out ''offers'' = JArr (JObj first # rest)"
  shows "js_get (coerce_offers out) ''offers'' = JArr (coerce_offer (JObj first) # map coerce_offer rest)"
    and "k \<noteq> ''offers'' \<Longrightarrow> map_of (coerce_offers out) k = map_of out k"
  using assms by (simp_all add: coerce_offers_def isArray_def arr_elems_def js_get_update update_conv')

lemma coerce_offer_obj:
  "coerce_offer (JObj first) = JObj first' \<Longrightarrow>
     map_of first' k = (if k = ''usdt_amount'' \<and> js_in k first
                        then Some (coerceUsdtAtomic (js_get first k)) else map_of first k)"
  by (auto simp: coerce_offer_def isObject_def obj_props_def update_conv' split: if_splits)

lemma coerce_offer_is_obj: "\<exists>first'. coerce_offer (JObj first) = JObj first'"
  by (simp add: coerce_offer_def isObject_def obj_props_def)


text \<open>
  Claim C8, as the code has it. When an \<^verbatim>\<open>intercomswap_offer_post\<close> argument object carries
  offer keys at the top level, the result has none of them at the top level, and its
  \<^verbatim>\<open>offers\<close> is an array whose first element is an object. Without a first offer object in
  the input that array has one element; with one, the further offers are kept (each with
  its \<^verbatim>\<open>usdt_amount\<close> coerced). A flattened key that the first offer did not have arrives
  there with the top-level value; a key the first offer had keeps the offer's value and is
  never overwritten by the top-level one. In both cases \<^verbatim>\<open>usdt_amount\<close> is passed through
  \<open>coerceUsdtAtomic\<close>.
\<close>

theorem flatten_without_override:
  assumes "k0 \<in> set offerKeys" "js_in k0 ps"
    and "res = obj_props (repairToolArguments ''intercomswap_offer_post'' (JObj ps))"
  shows "list_all (\<lambda>k. \<not> js_in k res) offerKeys
    \<and> usable_first_offer res
    \<and> (\<not> usable_first_offer ps \<longrightarrow> length (offers_of res) = 1)
    \<and> (usable_first_offer ps \<longrightarrow>
          drop 1 (offers_of res) = map coerce_offer (drop 1 (offers_of ps)))
    \<and> (k \<in> set offerKeys \<and> js_in k ps \<and> \<not> (usable_first_offer ps \<and> js_in k (first_offer ps)) \<longrightarrow>
          map_of (first_offer res) k
            = Some (if k = ''usdt_amount'' then coerceUsdtAtomic (js_get ps k) else js_get ps k))
    \<and> (usable_first_offer ps \<and> js_in k (first_offer ps) \<longrightarrow>
          map_of (first_offer res) k
            = Some (if k = ''usdt_amount'' then coerceUsdtAtomic (js_get (first_offer ps) k)
                    else js_get (first_offer ps) k))"
proof -
  define out where "out = repair_channel ps"
  have in_out: "js_in k out = js_in k ps" if "k \<in> set offerKeys" for k
    using that by (simp add: out_def js_in_def repair_channel_offer_key)
  have get_out: "js_get out k = js_get ps k" if "k \<in> set offerKeys" for k
    using that by (simp add: out_def js_get_def repair_channel_offer_key)
  have us: "usable_first_offer out = usable_first_offer ps"
    and os: "offers_of out = offers_of ps" and fs: "first_offer out = first_offer ps"
    by (simp_all add: out_def repair_channel_usable repair_channel_offers repair_channel_first)
  from assms(1,2) have "js_in k0 out" by (simp add: in_out)
  from flatten_offers_result[OF assms(1) this] obtain first where
    offers: "js_get (flatten_offers out) ''offers''
             = JArr (JObj first # (if usable_first_offer ps then drop 1 (offers_of ps) else []))"
    and first: "\<And>k. map_of first k =
               (case (if usable_first_offer ps then map_of (first_offer ps) k else None) of
                  Some v \<Rightarrow> Some v
                | None \<Rightarrow> if k \<in> set offerKeys \<and> js_in k out then Some (js_get out k) else None)"
    and gone: "\<And>k. k \<in> set offerKeys \<Longrightarrow> map_of (flatten_offers out) k = None"
    unfolding us os fs by blast
  have res: "res = coerce_offers (flatten_offers out)"
    by (simp add: assms(3) repairToolArguments_def isObject_def obj_props_def out_def)
  obtain first' where first': "coerce_offer (JObj first) = JObj first'"
    using coerce_offer_is_obj by blast
  have roff: "js_get res ''offers''
      = JArr (JObj first' # map coerce_offer (if usable_first_offer ps then drop 1 (offers_of ps) else []))"
    unfolding res coerce_offers_result(1)[OF offers] first' ..
  have c1: "list_all (\<lambda>k. \<not> js_in k res) offerKeys"
  proof -
    have "\<not> js_in k res" if "k \<in> set offerKeys" for k
    proof -
      have "k \<noteq> ''offers''" using that offerKeys_not_channel by blast
      then have "map_of res k = map_of (flatten_offers out) k"
        unfolding res by (rule coerce_offers_result(2)[OF offers])
      with gone[OF that] show ?thesis by (simp add: js_in_def)
    qed
    then show ?thesis by (simp add: list_all_iff)
  qed
  have c2: "usable_first_offer res"
    by (simp add: usable_first_offer_def offers_of_def roff isArray_def arr_elems_def
        arr_first_def isObject_def)
  have c3: "\<not> usable_first_offer ps \<longrightarrow> length (offers_of res) = 1"
    by (simp add: offers_of_def roff arr_elems_def)
  have c4: "usable_first_offer ps \<longrightarrow>
          drop 1 (offers_of res) = map coerce_offer (drop 1 (offers_of ps))"
    by (simp add: offers_of_def roff arr_elems_def)
  have fr: "first_offer res = first'"
    by (simp add: first_offer_def offers_of_def roff arr_elems_def arr_first_def obj_props_def)
  have m: "map_of (first_offer res) k =
             (if k = ''usdt_amount'' \<and> js_in k first
              then Some (coerceUsdtAtomic (js_get first k)) else map_of first k)"
    unfolding fr by (rule coerce_offer_obj[OF first'])
  have c5: "k \<in> set offerKeys \<and> js_in k ps \<and> \<not> (usable_first_offer ps \<and> js_in k (first_offer ps)) \<longrightarrow>
          map_of (first_offer res) k
            = Some (if k = ''usdt_amount'' then coerceUsdtAtomic (js_get ps k) else js_get ps k)"
  proof (intro impI, elim conjE)
    assume k: "k \<in> set offerKeys" "js_in k ps" and n: "\<not> (usable_first_offer ps \<and> js_in k (first_offer ps))"
    from n have "(if usable_first_offer ps then map_of (first_offer ps) k else None) = None"
      by (auto simp: js_in_def)
    with first[of k] k have "map_of first k = Some (js_get ps k)"
      by (simp add: in_out get_out)
    then show "map_of (first_offer res) k
            = Some (if k = ''usdt_amount'' then coerceUsdtAtomic (js_get ps k) else js_get ps k)"
      unfolding m by (auto simp: js_in_def js_get_def)
  qed
  have c6: "usable_first_offer ps \<and> js_in k (first_offer ps) \<longrightarrow>
          map_of (first_offer res) k
            = Some (if k = ''usdt_amount'' then coerceUsdtAtomic (js_get (first_offer ps) k)
                    else js_get (first_offer ps) k)"
  proof (intro impI, elim conjE)
    assume u: "usable_first_offer ps" and i: "js_in k (first_offer ps)"
    from i obtain v where v: "map_of (first_offer ps) k = Some v" by (auto simp: js_in_def)
    with first[of k] u have "map_of first k = Some v" by simp
    with v show "map_of (first_offer res) k
            = Some (if k = ''usdt_amount'' then coerceUsdtAtomic (js_get (first_offer ps) k)
                    else js_get (first_offer ps) k)"
      unfolding m by (auto simp: js_in_def js_get_def)
  qed
  from c1 c2 c3 c4 c5 c6 show ?thesis by blast
qed

lemmas obj_ev =
  isObject_def obj_props_def js_in_def js_get_def isArray_def arr_elems_def arr_first_def
  offerKeys_def

theorem flatten_without_override_witness:
  "''usdt_amount'' \<in> set offerKeys
   \<and> js_in ''usdt_amount'' [(''usdt_amount'', JStr ''0.12''), (''name'', JStr ''maker:alice'')]
   \<and> \<not> usable_first_offer [(''usdt_amount'', JStr ''0.12''), (''name'', JStr ''maker:alice'')]
   \<and> length (offers_of (obj_props (repairToolArguments ''intercomswap_offer_post''
        (JObj [(''usdt_amount'', JStr ''0.12''), (''name'', JStr ''maker:alice'')])))) = 1
   \<and> map_of (first_offer (obj_props (repairToolArguments ''intercomswap_offer_post''
        (JObj [(''usdt_amount'', JStr ''0.12''), (''name'', JStr ''maker:alice'')])))) ''usdt_amount''
      = Some (JStr ''120000'')
   \<and> ''pair'' \<in> set offerKeys
   \<and> js_in ''pair'' [(''pair'', JStr ''A''), (''offers'', JArr [JObj [(''pair'', JStr ''B'')], JNull])]
   \<and> usable_first_offer [(''pair'', JStr ''A''), (''offers'', JArr [JObj [(''pair'', JStr ''B'')], JNull])]
   \<and> js_in ''pair'' (first_offer [(''pair'', JStr ''A''), (''offers'', JArr [JObj [(''pair'', JStr ''B'')], JNull])])
   \<and> map_of (first_offer (obj_props (repairToolArguments ''intercomswap_offer_post''
        (JObj [(''pair'', JStr ''A''), (''offers'', JArr [JObj [(''pair'', JStr ''B'')], JNull])]))))
        ''pair'' = Some (JStr ''B'')
   \<and> drop 1 (offers_of (obj_props (repairToolArguments ''intercomswap_offer_post''
        (JObj [(''pair'', JStr ''A''), (''offers'', JArr [JObj [(''pair'', JStr ''B'')], JNull])]))))
      = [JNull]"
proof -
  let ?ps = "[(''usdt_amount'', JStr ''0.12''), (''name'', JStr ''maker:alice'')]"
  let ?qs = "[(''pair'', JStr ''A''), (''offers'', JArr [JObj [(''pair'', JStr ''B'')], JNull])]"
  have h1: "''usdt_amount'' \<in> set offerKeys"
    by (simp add: offerKeys_def)
  have h2: "js_in ''usdt_amount'' ?ps"
    by (simp add: js_in_def)
  have nu: "\<not> usable_first_offer ?ps"
    by (simp add: usable_first_offer_def obj_ev)
  have c: "coerceUsdtAtomic (js_get ?ps ''usdt_amount'') = JStr ''120000''"
    by (simp add: js_get_def coerce_ev string_ev)
  have g1: "''pair'' \<in> set offerKeys"
    by (simp add: offerKeys_def)
  have g2: "js_in ''pair'' ?qs"
    by (simp add: js_in_def)
  have u: "usable_first_offer ?qs" "js_in ''pair'' (first_offer ?qs)"
    "js_get (first_offer ?qs) ''pair'' = JStr ''B''" "drop 1 (offers_of ?qs) = [JNull]"
    by (simp_all add: usable_first_offer_def first_offer_def offers_of_def obj_ev)
  have cn: "coerce_offer JNull = JNull"
    by (simp add: coerce_offer_def isObject_def)
  from flatten_without_override[OF h1 h2 refl, of "''usdt_amount''"]
    flatten_without_override[OF g1 g2 refl, of "''pair''"] h1 h2 nu c g1 g2 u cn
  show ?thesis by simp
qed

text \<open>
  Claim C8 as stated fails in two places. With two offers present and \<^verbatim>\<open>pair\<close> flattened,
  the resulting \<^verbatim>\<open>offers\<close> array has two elements, not one. And a \<^verbatim>\<open>usdt_amount\<close> already
  present in \<^verbatim>\<open>offers[0]\<close> does not keep its value \<open>"0.12"\<close>: it is not overwritten by the
  top-level \<open>"5"\<close>, but it is coerced to \<open>"120000"\<close>.
\<close>

theorem flatten_two_offers_and_coercion:
  "repairToolArguments ''intercomswap_offer_post''
     (JObj [(''pair'', JStr ''BTC_LN/USDT_SOL''),
            (''offers'', JArr [JObj [(''have'', JStr ''USDT_SOL'')], JObj [(''have'', JStr ''BTC_LN'')]])])
   = JObj [(''offers'', JArr [JObj [(''have'', JStr ''USDT_SOL''), (''pair'', JStr ''BTC_LN/USDT_SOL'')],
                              JObj [(''have'', JStr ''BTC_LN'')]])]
   \<and> repairToolArguments ''intercomswap_offer_post''
     (JObj [(''usdt_amount'', JStr ''5''), (''offers'', JArr [JObj [(''usdt_amount'', JStr ''0.12'')]])])
   = JObj [(''offers'', JArr [JObj [(''usdt_amount'', JStr ''120000'')]])]"
proof -
  have c: "coerceUsdtAtomic (JStr ''0.12'') = JStr ''120000''"
    by (simp add: coerce_ev string_ev)
  have a: "repairToolArguments ''intercomswap_offer_post''
     (JObj [(''pair'', JStr ''BTC_LN/USDT_SOL''),
            (''offers'', JArr [JObj [(''have'', JStr ''USDT_SOL'')], JObj [(''have'', JStr ''BTC_LN'')]])])
   = JObj [(''offers'', JArr [JObj [(''have'', JStr ''USDT_SOL''), (''pair'', JStr ''BTC_LN/USDT_SOL'')],
                              JObj [(''have'', JStr ''BTC_LN'')]])]"
    by (simp add: repairToolArguments_def repair_channel_def flatten_offers_def coerce_offers_def
        coerce_offer_def obj_ev)
  have b: "repairToolArguments ''intercomswap_offer_post''
     (JObj [(''usdt_amount'', JStr ''5''), (''offers'', JArr [JObj [(''usdt_amount'', JStr ''0.12'')]])])
   = JObj [(''offers'', JArr [JObj [(''usdt_amount'', JStr ''120000'')]])]"
    by (simp add: repairToolArguments_def repair_channel_def flatten_offers_def coerce_offers_def
        coerce_offer_def obj_ev c)
  from a b show ?thesis by (rule conjI)
qed

section \<open>The trade state machine\<close>

lemma transition_frame:
  assumes "transition cfg t e = Inr t'"
  shows "trade_id t' = trade_id t \<and> applied t' = applied t \<and> peers t' = peers t"
proof (cases "env_body e")
  case (TermsBody b)
  with assms show ?thesis by (auto simp: transition_def split: if_splits)
next
  case (AcceptBody h)
  with assms show ?thesis by (auto simp: transition_def split: if_splits)
next
  case (InvoiceBody b)
  with assms show ?thesis by (auto simp: transition_def split: if_splits)
next
  case (EscrowBody b)
  with assms show ?thesis by (auto simp: transition_def split: if_splits)
next
  case (PaidBody b)
  with assms show ?thesis by (auto simp: transition_def split: if_splits)
next
  case (ClaimBody b)
  with assms show ?thesis by (auto simp: transition_def split: if_splits)
next
  case (CancelBody r)
  with assms show ?thesis by (auto simp: transition_def split: if_splits)
next
  case (OtherBody fs)
  with assms show ?thesis by (simp add: transition_def)
qed

lemma apply_success_cases:
  assumes "applySwapEnvelope cfg t e = Inr t'"
  shows "cfg_verify cfg e \<and> validateSwapEnvelope e \<and> env_trade_id e = trade_id t
         \<and> ((hashUnsignedEnvelope cfg e \<in> set (applied t) \<and> t' = t)
            \<or> (\<exists>t''. hashUnsignedEnvelope cfg e \<notin> set (applied t) \<and> transition cfg t e = Inr t''
                  \<and> t' = t''\<lparr>peers := List.insert (env_signer_pubkey e) (peers t''),
                               applied := hashUnsignedEnvelope cfg e # applied t''\<rparr>))"
  using assms unfolding applySwapEnvelope_def
  by (auto split: if_splits sum.splits)

lemma apply_success_replay:
  assumes "applySwapEnvelope cfg t e = Inr t'"
  shows "applySwapEnvelope cfg t' e = Inr t'"
proof -
  from apply_success_cases[OF assms] have
    v: "cfg_verify cfg e" "validateSwapEnvelope e" "env_trade_id e = trade_id t" and
    c: "(hashUnsignedEnvelope cfg e \<in> set (applied t) \<and> t' = t)
            \<or> (\<exists>t''. hashUnsignedEnvelope cfg e \<notin> set (applied t) \<and> transition cfg t e = Inr t''
                  \<and> t' = t''\<lparr>peers := List.insert (env_signer_pubkey e) (peers t''),
                               applied := hashUnsignedEnvelope cfg e # applied t''\<rparr>)"
    by simp_all
  from c show ?thesis
  proof
    assume "hashUnsignedEnvelope cfg e \<in> set (applied t) \<and> t' = t"
    with assms show ?thesis by simp
  next
    assume "\<exists>t''. hashUnsignedEnvelope cfg e \<notin> set (applied t) \<and> transition cfg t e = Inr t''
                  \<and> t' = t''\<lparr>peers := List.insert (env_signer_pubkey e) (peers t''),
                               applied := hashUnsignedEnvelope cfg e # applied t''\<rparr>"
    then obtain t'' where tr: "transition cfg t e = Inr t''"
      and t': "t' = t''\<lparr>peers := List.insert (env_signer_pubkey e) (peers t''),
                               applied := hashUnsignedEnvelope cfg e # applied t''\<rparr>"
      by blast
    from transition_frame[OF tr] t' have "trade_id t' = trade_id t"
      and "hashUnsignedEnvelope cfg e \<in> set (applied t')" by simp_all
    with v show ?thesis by (simp add: applySwapEnvelope_def)
  qed
qed

text \<open>
  Claim C2. Applying the same envelope a second time leaves the trade as the first
  application left it: after a success the second application is a no-op success
  returning the same record, and a rejection changes nothing.
\<close>

theorem apply_idempotent:
  "trade_after cfg (trade_after cfg t e) e = trade_after cfg t e
   \<and> (applySwapEnvelope cfg t e = Inr t' \<longrightarrow> applySwapEnvelope cfg t' e = Inr t')
   \<and> (applySwapEnvelope cfg t e = Inl r \<longrightarrow> trade_after cfg t e = t)"
proof -
  have a: "applySwapEnvelope cfg t e = Inr t' \<longrightarrow> applySwapEnvelope cfg t' e = Inr t'"
    using apply_success_replay by blast
  have b: "applySwapEnvelope cfg t e = Inl r \<longrightarrow> trade_after cfg t e = t"
    by (simp add: trade_after_def)
  have c: "trade_after cfg (trade_after cfg t e) e = trade_after cfg t e"
  proof (cases "applySwapEnvelope cfg t e")
    case (Inl r')
    then show ?thesis by (simp add: trade_after_def)
  next
    case (Inr t1)
    from apply_success_replay[OF this] Inr show ?thesis by (simp add: trade_after_def)
  qed
  from a b c show ?thesis by blast
qed

lemma is_hex32_replicate: "c \<in> set ''0123456789abcdef'' \<Longrightarrow> is_hex32 (replicate 64 c)"
  by (simp add: is_hex32_def list_all_iff)

lemma replicate_neq: "a \<noteq> b \<Longrightarrow> replicate 64 a \<noteq> replicate 64 b"
  by (simp add: replicate_eq_replicate)

text \<open>The four steps of the happy path up to \<^verbatim>\<open>ESCROW\<close>.\<close>

lemma example_step_terms:
  "applySwapEnvelope example_cfg (createInitialTrade ''t1'')
     (example_envelope KIND_TERMS (TermsBody example_terms) ''alice'') = Inr example_trade_terms"
  by (simp add: applySwapEnvelope_def example_cfg_def example_envelope_def validateSwapEnvelope_def
      example_terms_def createInitialTrade_def hashUnsignedEnvelope_def transition_def
      example_trade_terms_def)

lemma example_step_accept:
  "applySwapEnvelope example_cfg example_trade_terms
     (example_envelope KIND_ACCEPT (AcceptBody (replicate 64 CHR ''a'')) ''bob'')
   = Inr example_trade_accepted"
  by (simp add: applySwapEnvelope_def example_cfg_def example_envelope_def validateSwapEnvelope_def
      createInitialTrade_def hashUnsignedEnvelope_def transition_def is_hex32_replicate
      replicate_neq example_trade_terms_def example_trade_accepted_def)

lemma example_step_invoice:
  "applySwapEnvelope example_cfg example_trade_accepted
     (example_envelope KIND_LN_INVOICE (InvoiceBody example_invoice) ''alice'')
   = Inr example_trade_invoice"
  by (simp add: applySwapEnvelope_def example_cfg_def example_envelope_def validateSwapEnvelope_def
      createInitialTrade_def hashUnsignedEnvelope_def transition_def is_hex32_replicate
      replicate_neq example_invoice_def example_trade_terms_def example_trade_accepted_def
      example_trade_invoice_def)

lemma example_step_escrow:
  "applySwapEnvelope example_cfg example_trade_invoice
     (example_envelope KIND_SOL_ESCROW_CREATED (EscrowBody example_escrow) ''alice'')
   = Inr example_trade_escrow"
  by (simp add: applySwapEnvelope_def example_cfg_def example_envelope_def validateSwapEnvelope_def
      createInitialTrade_def hashUnsignedEnvelope_def transition_def is_hex32_replicate
      replicate_neq example_escrow_def example_terms_def escrow_mirrors_terms_def
      example_trade_terms_def example_trade_accepted_def
      example_trade_invoice_def example_trade_escrow_def)

theorem apply_idempotent_witness:
  "applySwapEnvelope example_cfg (createInitialTrade ''t1'')
     (example_envelope KIND_TERMS (TermsBody example_terms) ''alice'') = Inr example_trade_terms
   \<and> applySwapEnvelope example_cfg example_trade_terms
     (example_envelope KIND_TERMS (TermsBody example_terms) ''alice'') = Inr example_trade_terms
   \<and> applySwapEnvelope example_cfg example_trade_terms
     (example_envelope KIND_LN_INVOICE (InvoiceBody example_invoice) ''alice'') = Inl IllegalTransition
   \<and> trade_after example_cfg example_trade_terms
     (example_envelope KIND_LN_INVOICE (InvoiceBody example_invoice) ''alice'') = example_trade_terms"
proof -
  have r: "applySwapEnvelope example_cfg example_trade_terms
     (example_envelope KIND_LN_INVOICE (InvoiceBody example_invoice) ''alice'') = Inl IllegalTransition"
    by (simp add: applySwapEnvelope_def example_cfg_def example_envelope_def validateSwapEnvelope_def
      createInitialTrade_def hashUnsignedEnvelope_def transition_def is_hex32_replicate
      replicate_neq example_invoice_def example_trade_terms_def)
  from apply_idempotent[of example_cfg "createInitialTrade ''t1''"
      "example_envelope KIND_TERMS (TermsBody example_terms) ''alice''" example_trade_terms]
    apply_idempotent[of example_cfg example_trade_terms
      "example_envelope KIND_LN_INVOICE (InvoiceBody example_invoice) ''alice''" _ IllegalTransition]
    example_step_terms r
  show ?thesis by simp
qed

section \<open>Binding closure\<close>

lemma invariant_initial: "trade_invariant (createInitialTrade tid)"
  by (simp add: trade_invariant_def createInitialTrade_def)

lemma invariant_frame:
  assumes "trade_invariant t"
  shows "trade_invariant (t\<lparr>peers := ps, applied := hs\<rparr>)"
  using assms by (simp add: trade_invariant_def binding_closed_def split: option.splits)

lemma transition_invariant:
  assumes "trade_invariant t" "transition cfg t e = Inr t'"
  shows "trade_invariant t'"
proof (cases "env_body e")
  case (TermsBody b)
  with assms show ?thesis
    by (auto simp: transition_def trade_invariant_def binding_closed_def split: if_splits option.splits)
next
  case (AcceptBody h)
  with assms show ?thesis
    by (auto simp: transition_def trade_invariant_def binding_closed_def split: if_splits option.splits)
next
  case (InvoiceBody b)
  with assms show ?thesis
    by (auto simp: transition_def trade_invariant_def binding_closed_def split: if_splits option.splits)
next
  case (EscrowBody b)
  with assms show ?thesis
    by (auto simp: transition_def trade_invariant_def binding_closed_def escrow_mirrors_terms_def
        split: if_splits option.splits)
next
  case (PaidBody b)
  with assms show ?thesis
    by (auto simp: transition_def trade_invariant_def binding_closed_def split: if_splits option.splits)
next
  case (ClaimBody b)
  with assms show ?thesis
    by (auto simp: transition_def trade_invariant_def binding_closed_def split: if_splits option.splits)
next
  case (CancelBody r)
  with assms show ?thesis
    by (auto simp: transition_def trade_invariant_def binding_closed_def split: if_splits option.splits)
next
  case (OtherBody fs)
  with assms show ?thesis by (simp add: transition_def)
qed

lemma apply_invariant:
  assumes "trade_invariant t" "applySwapEnvelope cfg t e = Inr t'"
  shows "trade_invariant t'"
proof -
  from apply_success_cases[OF assms(2)] have
    "(hashUnsignedEnvelope cfg e \<in> set (applied t) \<and> t' = t)
            \<or> (\<exists>t''. hashUnsignedEnvelope cfg e \<notin> set (applied t) \<and> transition cfg t e = Inr t''
                  \<and> t' = t''\<lparr>peers := List.insert (env_signer_pubkey e) (peers t''),
                               applied := hashUnsignedEnvelope cfg e # applied t''\<rparr>)"
    by simp
  then show ?thesis
  proof
    assume "hashUnsignedEnvelope cfg e \<in> set (applied t) \<and> t' = t"
    with assms(1) show ?thesis by simp
  next
    assume "\<exists>t''. hashUnsignedEnvelope cfg e \<notin> set (applied t) \<and> transition cfg t e = Inr t''
                  \<and> t' = t''\<lparr>peers := List.insert (env_signer_pubkey e) (peers t''),
                               applied := hashUnsignedEnvelope cfg e # applied t''\<rparr>"
    then obtain t'' where tr: "transition cfg t e = Inr t''"
      and t': "t' = t''\<lparr>peers := List.insert (env_signer_pubkey e) (peers t''),
                               applied := hashUnsignedEnvelope cfg e # applied t''\<rparr>"
      by blast
    from transition_invariant[OF assms(1) tr] have "trade_invariant t''" .
    then show ?thesis unfolding t' by (rule invariant_frame)
  qed
qed

lemma refund_invariant:
  assumes "trade_invariant t" "observeRefund now t = Inr t'"
  shows "trade_invariant t'"
  using assms
  by (auto simp: observeRefund_def trade_invariant_def binding_closed_def split: if_splits option.splits)

lemma reachable_invariant: "reachable t \<Longrightarrow> trade_invariant t"
proof (induction rule: reachable.induct)
  case (initial tid)
  show ?case by (rule invariant_initial)
next
  case (applied t cfg e t')
  then show ?case using apply_invariant by blast
next
  case (refunded t now t')
  then show ?case using refund_invariant by blast
qed

text \<open>
  Claim C3, as the program has it. Every trade reachable from \<open>create_initial\<close> by
  successful applications (and refund observations) whose state is \<^verbatim>\<open>ESCROW\<close> or a later
  one (\<^verbatim>\<open>LN_PAID\<close>, \<^verbatim>\<open>CLAIMED\<close>, \<^verbatim>\<open>REFUNDED\<close>) holds terms, an invoice and an escrow with
  \<open>escrow.amount = terms.usdt_amount\<close>, \<open>escrow.mint = terms.sol_mint\<close>,
  \<open>escrow.recipient = terms.sol_recipient\<close>, \<open>escrow.refund = terms.sol_refund\<close> and
  \<open>escrow.payment_hash_hex = invoice.payment_hash_hex\<close>. The same holds in any state once
  an escrow is stored. The escrow's refund time is not part of the closure.
\<close>

theorem binding_closure:
  "reachable t \<Longrightarrow>
     (state t \<in> {STATE_ESCROW, STATE_LN_PAID, STATE_CLAIMED, STATE_REFUNDED} \<longrightarrow> binding_closed t)
     \<and> (escrow t \<noteq> None \<longrightarrow> binding_closed t)"
proof -
  assume "reachable t"
  then have "trade_invariant t" by (rule reachable_invariant)
  then show ?thesis by (simp add: trade_invariant_def)
qed

theorem binding_closure_witness:
  "reachable example_trade_escrow
   \<and> state example_trade_escrow \<in> {STATE_ESCROW, STATE_LN_PAID, STATE_CLAIMED, STATE_REFUNDED}
   \<and> binding_closed example_trade_escrow
   \<and> escrow example_trade_escrow = Some example_escrow"
proof -
  have "reachable (createInitialTrade ''t1'')" by (rule reachable.initial)
  then have "reachable example_trade_terms"
    using example_step_terms by (rule reachable.applied)
  then have "reachable example_trade_accepted"
    using example_step_accept by (rule reachable.applied)
  then have "reachable example_trade_invoice"
    using example_step_invoice by (rule reachable.applied)
  then have r: "reachable example_trade_escrow"
    using example_step_escrow by (rule reachable.applied)
  have s: "state example_trade_escrow = STATE_ESCROW"
    "escrow example_trade_escrow = Some example_escrow"
    by (simp_all add: example_trade_escrow_def)
  from binding_closure[OF r] r s show ?thesis by simp
qed

text \<open>
  Claim C3 as the specification states it also has
  \<open>escrow.refund_after_unix = terms.sol_refund_after_unix\<close>. That part fails on the trade
  of the end-to-end test: the terms, written at 1700000000, have the refund time
  1700003600, the escrow, created at 1700000005, has 1700003605, and the four envelopes
  are applied with success up to the state \<^verbatim>\<open>ESCROW\<close>.
\<close>

theorem escrow_refund_time_differs:
  "applySwapEnvelope example_cfg example_trade_invoice
     (example_envelope KIND_SOL_ESCROW_CREATED (EscrowBody example_escrow) ''alice'')
     = Inr example_trade_escrow
   \<and> reachable example_trade_escrow
   \<and> state example_trade_escrow = STATE_ESCROW
   \<and> terms example_trade_escrow = Some example_terms
   \<and> escrow example_trade_escrow = Some example_escrow
   \<and> sol_refund_after_unix example_terms = 1700003600
   \<and> esc_refund_after_unix example_escrow = 1700003605
   \<and> esc_refund_after_unix example_escrow \<noteq> sol_refund_after_unix example_terms"
proof -
  have "reachable (createInitialTrade ''t1'')" by (rule reachable.initial)
  then have "reachable example_trade_terms"
    using example_step_terms by (rule reachable.applied)
  then have "reachable example_trade_accepted"
    using example_step_accept by (rule reachable.applied)
  then have "reachable example_trade_invoice"
    using example_step_invoice by (rule reachable.applied)
  then have r: "reachable example_trade_escrow"
    using example_step_escrow by (rule reachable.applied)
  have s: "state example_trade_escrow = STATE_ESCROW"
    "escrow example_trade_escrow = Some example_escrow"
    "terms example_trade_escrow = Some example_terms"
    by (simp_all add: example_trade_escrow_def example_trade_invoice_def
        example_trade_accepted_def example_trade_terms_def)
  have f: "sol_refund_after_unix example_terms = 1700003600"
    "esc_refund_after_unix example_escrow = 1700003605"
    by (simp_all add: example_terms_def example_escrow_def)
  from r s f example_step_escrow show ?thesis by simp
qed

section \<open>Pre-pay verification\<close>





end
